theory Spec2Isabelle
  imports Complex_Main
begin

section \<open>Evolution simulator: data model\<close>

text \<open>
  The embedding follows \<^verbatim>\<open>EvolutionSimulator.py\<close>. Python's floats are idealised
  as \<^typ>\<open>real\<close> and its unbounded integers are \<^typ>\<open>int\<close>. Creature objects live in
  a store (\<open>heap\<close>) and are named by references, because the program keeps acting on
  a creature through the loop variable after the object has left the list of the
  ecosystem. There is one ecosystem, so the back-reference \<^verbatim>\<open>self.ecosystem\<close> of
  every creature is the state itself.
\<close>

abbreviation SCREEN_WIDTH :: int where "SCREEN_WIDTH \<equiv> 800"
abbreviation SCREEN_HEIGHT :: int where "SCREEN_HEIGHT \<equiv> 600"
abbreviation REPRODUCTION_DISTANCE_THRESHOLD :: int where "REPRODUCTION_DISTANCE_THRESHOLD \<equiv> 10"
abbreviation ENERGY_THRESHOLD_FOR_DEATH :: int where "ENERGY_THRESHOLD_FOR_DEATH \<equiv> - 300"
abbreviation REPRODUCTION_COOLDOWN :: int where "REPRODUCTION_COOLDOWN \<equiv> 275"

text \<open>The gender strings \<^verbatim>\<open>'male'\<close> and \<^verbatim>\<open>'female'\<close>: no other value is ever assigned.\<close>

datatype gender = Male | Female

text \<open>\<^verbatim>\<open>list.remove\<close> raises \<^verbatim>\<open>ValueError\<close> when the element is absent.\<close>

datatype error = ValueError

record creature =
  energy :: real
  position :: "real \<times> real"
  gender :: gender
  generation :: int
  hunger :: int
  speed :: real
  reproduction_cooldown :: int

record food =
  energyContent :: int
  food_position :: "int \<times> int"

text \<open>
  \<open>creatures\<close> and \<open>foods\<close> are the two lists of the class \<^verbatim>\<open>Ecosystem\<close>;
  \<open>creatures\<close> holds references. \<open>next_ref\<close> is the next unused reference and
  \<open>rng\<close> the state of the global random generator: the sequence of raw draws still
  to come.
\<close>

record ecosystem =
  creatures :: "nat list"
  foods :: "food list"
  heap :: "nat \<Rightarrow> creature"
  next_ref :: nat
  rng :: "nat \<Rightarrow> nat"

section \<open>The random module\<close>

text \<open>
  The generator is an arbitrary infinite sequence of raw draws. Each library function
  takes the next raw draw and maps it onto its documented range, so every value of the
  range is reachable and nothing outside of it is. \<^verbatim>\<open>random.random()\<close> returns a
  multiple of \<open>2\<^sup>-\<^sup>5\<^sup>3\<close> in \<open>[0, 1)\<close>, \<^verbatim>\<open>random.uniform(a, b)\<close> is
  \<^verbatim>\<open>a + (b - a) * random()\<close>.
\<close>

definition rng_next :: "(nat \<Rightarrow> nat) \<Rightarrow> nat \<times> (nat \<Rightarrow> nat)" where
  "rng_next g = (g 0, \<lambda>n. g (Suc n))"

definition randint :: "int \<Rightarrow> int \<Rightarrow> (nat \<Rightarrow> nat) \<Rightarrow> int \<times> (nat \<Rightarrow> nat)" where
  "randint a b g = (case rng_next g of (r, g') \<Rightarrow> (a + int (r mod nat (b - a + 1)), g'))"

definition random_unit :: "(nat \<Rightarrow> nat) \<Rightarrow> real \<times> (nat \<Rightarrow> nat)" where
  "random_unit g = (case rng_next g of (r, g') \<Rightarrow> (real (r mod 2 ^ 53) / 2 ^ 53, g'))"

definition uniform :: "real \<Rightarrow> real \<Rightarrow> (nat \<Rightarrow> nat) \<Rightarrow> real \<times> (nat \<Rightarrow> nat)" where
  "uniform a b g = (case random_unit g of (u, g') \<Rightarrow> (a + (b - a) * u, g'))"

definition choice_gender :: "(nat \<Rightarrow> nat) \<Rightarrow> gender \<times> (nat \<Rightarrow> nat)" where
  "choice_gender g = (case rng_next g of (r, g') \<Rightarrow> (if r mod 2 = 0 then Male else Female, g'))"

section \<open>Numeric helpers of the language\<close>

text \<open>\<^verbatim>\<open>int(x)\<close> on a float truncates towards zero.\<close>

definition py_int :: "real \<Rightarrow> int" where
  "py_int x = (if 0 \<le> x then \<lfloor>x\<rfloor> else \<lceil>x\<rceil>)"

text \<open>\<^verbatim>\<open>a // 2\<close> is the floor of the quotient, on integers and on floats.\<close>

definition floordiv2 :: "real \<Rightarrow> real" where
  "floordiv2 a = of_int \<lfloor>a / 2\<rfloor>"

text \<open>
  \<^verbatim>\<open>min(xs, key=k)\<close> keeps the first element whose key is smallest: the running
  best is replaced only by a strictly smaller key.
\<close>

fun min_by :: "('a \<Rightarrow> real) \<Rightarrow> 'a \<Rightarrow> 'a list \<Rightarrow> 'a" where
  "min_by k best [] = best"
| "min_by k best (x # xs) = min_by k (if k x < k best then x else best) xs"

section \<open>Creature\<close>

text \<open>
  \<^verbatim>\<open>Creature.__init__\<close>: allocates the object. With no gender given, the gender is
  drawn.
\<close>

definition Creature_init ::
  "ecosystem \<Rightarrow> real \<Rightarrow> real \<times> real \<Rightarrow> gender option \<Rightarrow> int \<Rightarrow> nat \<times> ecosystem" where
  "Creature_init s e p gopt gen =
     (case (case gopt of Some g \<Rightarrow> (g, rng s) | None \<Rightarrow> choice_gender (rng s)) of
        (g, r') \<Rightarrow>
          (next_ref s,
           s\<lparr>heap := (heap s)(next_ref s :=
                 \<lparr>energy = e, position = p, gender = g, generation = gen,
                  hunger = 0, speed = 1, reproduction_cooldown = 0\<rparr>),
             next_ref := Suc (next_ref s),
             rng := r'\<rparr>))"

definition distance_to :: "real \<times> real \<Rightarrow> real \<times> real \<Rightarrow> real" where
  "distance_to p q = sqrt ((fst p - fst q)\<^sup>2 + (snd p - snd q)\<^sup>2)"

definition die :: "ecosystem \<Rightarrow> nat \<Rightarrow> error + ecosystem" where
  "die s c =
     (if c \<in> set (creatures s) then Inr (s\<lparr>creatures := remove1 c (creatures s)\<rparr>)
      else Inl ValueError)"

definition adjust_speed_based_on_hunger :: "creature \<Rightarrow> creature" where
  "adjust_speed_based_on_hunger me = me\<lparr>speed := min 5 (1 + real_of_int (hunger me) / 100)\<rparr>"

definition update :: "ecosystem \<Rightarrow> nat \<Rightarrow> error + ecosystem" where
  "update s c =
     (let m1 = (heap s c)\<lparr>hunger := hunger (heap s c) + 1\<rparr>;
          m2 = adjust_speed_based_on_hunger m1;
          m3 = (if reproduction_cooldown m2 > 0
                then m2\<lparr>reproduction_cooldown := reproduction_cooldown m2 - 1\<rparr> else m2);
          m4 = m3\<lparr>energy := energy m3 - 1 / 2\<rparr>;
          s' = s\<lparr>heap := (heap s)(c := m4)\<rparr>
      in if energy m4 \<le> real_of_int ENERGY_THRESHOLD_FOR_DEATH then die s' c else Inr s')"

definition moveRandomly :: "ecosystem \<Rightarrow> nat \<Rightarrow> ecosystem" where
  "moveRandomly s c =
     (case randint (- 10) 10 (rng s) of (rx, g1) \<Rightarrow>
      case randint (- 10) 10 g1 of (ry, g2) \<Rightarrow>
        s\<lparr>heap := (heap s)(c := (heap s c)\<lparr>position :=
              (max 0 (min (real_of_int SCREEN_WIDTH) (fst (position (heap s c)) + real_of_int rx)),
               max 0 (min (real_of_int SCREEN_HEIGHT) (snd (position (heap s c)) + real_of_int ry)))\<rparr>),
          rng := g2\<rparr>)"

definition moveTowards :: "ecosystem \<Rightarrow> nat \<Rightarrow> real \<times> real \<Rightarrow> ecosystem" where
  "moveTowards s c target_position =
     (let me = heap s c;
          dx = fst target_position - fst (position me);
          dy = snd target_position - snd (position me);
          distance = max 1 (distance_to (position me) target_position);
          step_x = dx / distance * speed me;
          step_y = dy / distance * speed me
      in s\<lparr>heap := (heap s)(c := me\<lparr>position :=
              (max 0 (min (real_of_int SCREEN_WIDTH) (fst (position me) + step_x)),
               max 0 (min (real_of_int SCREEN_HEIGHT) (snd (position me) + step_y)))\<rparr>)\<rparr>)"

definition eat_food :: "ecosystem \<Rightarrow> nat \<Rightarrow> food \<Rightarrow> ecosystem" where
  "eat_food s c f =
     s\<lparr>heap := (heap s)(c := (heap s c)\<lparr>energy := energy (heap s c) + real_of_int (energyContent f),
                                          hunger := max 0 (hunger (heap s c) - 50)\<rparr>)\<rparr>"

section \<open>Food\<close>

definition real_pos :: "int \<times> int \<Rightarrow> real \<times> real" where
  "real_pos p = (real_of_int (fst p), real_of_int (snd p))"

definition isOverlapping :: "food \<Rightarrow> real \<times> real \<Rightarrow> bool" where
  "isOverlapping f p \<longleftrightarrow>
     \<bar>real_of_int (fst (food_position f)) - fst p\<bar> < 10 \<and>
     \<bar>real_of_int (snd (food_position f)) - snd p\<bar> < 10"

section \<open>Reproduction\<close>

text \<open>
  The body of the \<^verbatim>\<open>for _ in range(offspring_count)\<close> loop: one offspring is
  built and appended. The draws are made in the order of the source: the energy
  multiplier, the mutation factor, the mutation chance, then the gender inside the
  constructor.
\<close>

definition make_offspring :: "ecosystem \<Rightarrow> nat \<Rightarrow> nat \<Rightarrow> ecosystem" where
  "make_offspring s self other_creature =
     (let me = heap s self; oc = heap s other_creature;
          new_position = (floordiv2 (fst (position me) + fst (position oc)),
                          floordiv2 (snd (position me) + snd (position oc)))
      in case uniform (9 / 10) (11 / 10) (rng s) of (u, g1) \<Rightarrow>
         let new_energy = max 10 (py_int ((energy me + energy oc) / 4 * u));
             base_speed = (speed me + speed oc) / 2
         in case uniform (8 / 10) (12 / 10) g1 of (speed_mutation_factor, g2) \<Rightarrow>
            case random_unit g2 of (chance, g3) \<Rightarrow>
            let new_speed = (if chance < 1 / 2 then base_speed * speed_mutation_factor
                             else base_speed)
            in case Creature_init (s\<lparr>rng := g3\<rparr>) (real_of_int new_energy) new_position None
                      (generation me + 1) of (r, s1) \<Rightarrow>
                 s1\<lparr>heap := (heap s1)(r := (heap s1 r)\<lparr>speed := new_speed\<rparr>),
                    creatures := creatures s1 @ [r]\<rparr>)"

fun offspring_loop :: "nat \<Rightarrow> ecosystem \<Rightarrow> nat \<Rightarrow> nat \<Rightarrow> ecosystem" where
  "offspring_loop 0 s self other_creature = s"
| "offspring_loop (Suc n) s self other_creature =
     offspring_loop n (make_offspring s self other_creature) self other_creature"

definition reproduce :: "ecosystem \<Rightarrow> nat \<Rightarrow> nat \<Rightarrow> ecosystem" where
  "reproduce s self other_creature =
     (if gender (heap s self) = gender (heap s other_creature)
         \<or> reproduction_cooldown (heap s self) > 0
         \<or> reproduction_cooldown (heap s other_creature) > 0
      then s
      else
        let s1 = s\<lparr>heap := (heap s)(self :=
                      (heap s self)\<lparr>reproduction_cooldown := REPRODUCTION_COOLDOWN\<rparr>)\<rparr>;
            s2 = s1\<lparr>heap := (heap s1)(other_creature :=
                      (heap s1 other_creature)\<lparr>reproduction_cooldown := REPRODUCTION_COOLDOWN\<rparr>)\<rparr>
        in case randint 1 3 (rng s2) of (offspring_count, g) \<Rightarrow>
             offspring_loop (nat offspring_count) (s2\<lparr>rng := g\<rparr>) self other_creature)"

section \<open>Foraging and mating\<close>

text \<open>
  \<open>forage\<close> is the tail of \<^verbatim>\<open>seekFood\<close> (nearest food, move, eat), reached whenever
  no reproduction takes place; the food list is not empty there, since the empty
  list has returned before. \<^verbatim>\<open>manage\<close> passes the food list of the ecosystem
  itself, so the parameter \<^verbatim>\<open>foods\<close> and \<^verbatim>\<open>self.ecosystem.foods\<close> are one list and
  \<^verbatim>\<open>remove\<close> finds its element. Food items are compared by identity; the first
  item of least distance is also the first item equal to it as a value, so removing
  by value removes the same item.
\<close>

definition forage :: "ecosystem \<Rightarrow> nat \<Rightarrow> ecosystem" where
  "forage s c =
     (case foods s of
        [] \<Rightarrow> s
      | f # fs \<Rightarrow>
          let food_target =
                min_by (\<lambda>x. distance_to (position (heap s c)) (real_pos (food_position x))) f fs;
              s1 = moveTowards s c (real_pos (food_position food_target))
          in if isOverlapping food_target (position (heap s1 c))
             then (eat_food s1 c food_target)\<lparr>foods := remove1 food_target (foods s1)\<rparr>
             else s1)"

definition potential_partners :: "ecosystem \<Rightarrow> nat \<Rightarrow> nat list" where
  "potential_partners s c =
     filter (\<lambda>r. gender (heap s r) \<noteq> gender (heap s c) \<and> reproduction_cooldown (heap s r) \<le> 0)
       (creatures s)"

definition seekFood :: "ecosystem \<Rightarrow> nat \<Rightarrow> ecosystem" where
  "seekFood s c =
     (if foods s = [] then moveRandomly s c
      else if hunger (heap s c) \<ge> 50 \<and> reproduction_cooldown (heap s c) \<le> 0 then
        (case potential_partners s c of
           [] \<Rightarrow> forage s c
         | p # ps \<Rightarrow>
             let partner =
                   min_by (\<lambda>r. distance_to (position (heap s c)) (position (heap s r))) p ps
             in if distance_to (position (heap s c)) (position (heap s partner))
                     \<le> real_of_int REPRODUCTION_DISTANCE_THRESHOLD
                then reproduce s c partner
                else forage s c)
      else forage s c)"

section \<open>Ecosystem\<close>

text \<open>
  \<^verbatim>\<open>spawn_food\<close>: the loop runs while fewer than 50 items exist. Each round draws
  \<open>x\<close>, \<open>y\<close> and the energy content, in this order.
\<close>

function spawn_food :: "ecosystem \<Rightarrow> ecosystem" where
  "spawn_food s =
     (if length (foods s) < 50 then
        (case randint 0 (SCREEN_WIDTH - 10) (rng s) of (x, g1) \<Rightarrow>
         case randint 0 (SCREEN_HEIGHT - 10) g1 of (y, g2) \<Rightarrow>
         case randint 3 7 g2 of (e, g3) \<Rightarrow>
           spawn_food (s\<lparr>foods := foods s @ [\<lparr>energyContent = e, food_position = (x, y)\<rparr>],
                         rng := g3\<rparr>))
      else s)"
  by pat_completeness auto
termination
  by (relation "measure (\<lambda>s. 50 - length (foods s))") (auto simp: randint_def rng_next_def)

text \<open>
  The \<^verbatim>\<open>for creature in self.creatures\<close> loop of \<^verbatim>\<open>manage\<close>. The iterator of a
  list is an index into the live list: it reads the element at the index, advances,
  and stops when the index reaches the current length, so removals and appends made
  by the body are seen. The result is \<open>None\<close> when the loop does not end.
\<close>

partial_function (option) manage_loop :: "ecosystem \<Rightarrow> nat \<Rightarrow> (error + ecosystem) option" where
  "manage_loop s i =
     (if i < length (creatures s) then
        (case update s (creatures s ! i) of
           Inl e \<Rightarrow> Some (Inl e)
         | Inr s1 \<Rightarrow> manage_loop (seekFood s1 (creatures s ! i)) (Suc i))
      else Some (Inr s))"

definition manage :: "ecosystem \<Rightarrow> (error + ecosystem) option" where
  "manage s =
     (case manage_loop s 0 of
        None \<Rightarrow> None
      | Some (Inl e) \<Rightarrow> Some (Inl e)
      | Some (Inr s') \<Rightarrow> Some (Inr (spawn_food s')))"

text \<open>
  \<^verbatim>\<open>Ecosystem.__init__\<close>: ten founders with energy 100 at random integer positions of
  the world, and an empty food list. Each founder draws \<open>x\<close>, \<open>y\<close> and then, in its
  constructor, its gender. References not yet allocated hold a placeholder that is
  never read.
\<close>

definition unallocated :: creature where
  "unallocated = \<lparr>energy = 0, position = (0, 0), gender = Male, generation = 0,
                  hunger = 0, speed = 0, reproduction_cooldown = 0\<rparr>"

definition make_founder :: "ecosystem \<Rightarrow> ecosystem" where
  "make_founder s =
     (case randint 0 SCREEN_WIDTH (rng s) of (x, g1) \<Rightarrow>
      case randint 0 SCREEN_HEIGHT g1 of (y, g2) \<Rightarrow>
      case Creature_init (s\<lparr>rng := g2\<rparr>) 100 (real_of_int x, real_of_int y) None 0 of (r, s1) \<Rightarrow>
        s1\<lparr>creatures := creatures s1 @ [r]\<rparr>)"

fun founders :: "nat \<Rightarrow> ecosystem \<Rightarrow> ecosystem" where
  "founders 0 s = s"
| "founders (Suc n) s = founders n (make_founder s)"

definition Ecosystem_init :: "(nat \<Rightarrow> nat) \<Rightarrow> ecosystem" where
  "Ecosystem_init g =
     founders 10 \<lparr>creatures = [], foods = [], heap = (\<lambda>_. unallocated), next_ref = 0, rng = g\<rparr>"

text \<open>
  The main loop calls \<^verbatim>\<open>manage\<close> once per frame on the ecosystem built at start;
  drawing reads the state and changes nothing. The states of a run are those reached
  from an initial ecosystem by ticks that return.
\<close>

inductive reachable :: "ecosystem \<Rightarrow> bool" where
  start: "reachable (Ecosystem_init g)"
| tick: "reachable s \<Longrightarrow> manage s = Some (Inr s') \<Longrightarrow> reachable s'"

section \<open>Specification vocabulary and example states\<close>


text \<open>The world is the rectangle \<open>[0, 800] \<times> [0, 600]\<close>.\<close>

definition in_bounds :: "real \<times> real \<Rightarrow> bool" where
  "in_bounds p \<longleftrightarrow>
     0 \<le> fst p \<and> fst p \<le> real_of_int SCREEN_WIDTH \<and>
     0 \<le> snd p \<and> snd p \<le> real_of_int SCREEN_HEIGHT"

text \<open>
  The invariant of a run: the collection holds each live creature once, every
  reference in it is allocated, every allocated creature has non-negative hunger and
  cooldown and a position inside the world, and there are at most 50 food items.
\<close>

definition sane :: "creature \<Rightarrow> bool" where
  "sane c \<longleftrightarrow> 0 \<le> hunger c \<and> 0 \<le> reproduction_cooldown c \<and> in_bounds (position c)"

definition well_formed :: "ecosystem \<Rightarrow> bool" where
  "well_formed s \<longleftrightarrow>
     distinct (creatures s) \<and> (\<forall>r \<in> set (creatures s). r < next_ref s) \<and>
     (\<forall>r < next_ref s. sane (heap s r)) \<and> length (foods s) \<le> 50"

text \<open>
  The measure that bounds the loop of \<^verbatim>\<open>manage\<close>: the creatures still to be visited,
  where one hungry enough to mate when visited counts four, for itself and for the at
  most three children it may append.
\<close>

definition weight :: "ecosystem \<Rightarrow> nat \<Rightarrow> nat" where
  "weight s r = (if 49 \<le> hunger (heap s r) then 4 else 1)"

definition remaining :: "ecosystem \<Rightarrow> nat \<Rightarrow> nat" where
  "remaining s i = sum_list (map (weight s) (drop i (creatures s)))"

text \<open>The range of speeds that \<^verbatim>\<open>adjust_speed_based_on_hunger\<close> aims at.\<close>

definition speed_ok :: "creature \<Rightarrow> bool" where
  "speed_ok c \<longleftrightarrow> 1 \<le> speed c \<and> speed c \<le> 5"

text \<open>
  The loop of \<^verbatim>\<open>manage\<close> once more, as a relation that follows \<open>manage_loop\<close> round
  by round and keeps beside the state the set \<open>N\<close> of the creatures that
  \<^verbatim>\<open>reproduce\<close> has made and on which \<^verbatim>\<open>update\<close> has not run since: a round takes
  the visited creature out of \<open>N\<close>, for its \<^verbatim>\<open>update\<close>, and puts in the creatures
  that its \<^verbatim>\<open>seekFood\<close> has allocated. A run starts with \<open>N\<close> empty.
\<close>

inductive loop_traced :: "ecosystem \<Rightarrow> nat set \<Rightarrow> nat \<Rightarrow> ecosystem \<Rightarrow> nat set \<Rightarrow> bool" where
  finish: "length (creatures s) \<le> i \<Longrightarrow> loop_traced s N i s N"
| visit: "i < length (creatures s) \<Longrightarrow> update s (creatures s ! i) = Inr s1 \<Longrightarrow>
          loop_traced (seekFood s1 (creatures s ! i))
            (N - {creatures s ! i} \<union> {next_ref s1 ..< next_ref (seekFood s1 (creatures s ! i))})
            (Suc i) s' N' \<Longrightarrow>
          loop_traced s N i s' N'"

inductive run_traced :: "ecosystem \<Rightarrow> nat set \<Rightarrow> bool" where
  init: "run_traced (Ecosystem_init g) {}"
| tick: "run_traced s N \<Longrightarrow> loop_traced s N 0 s1 N1 \<Longrightarrow> run_traced (spawn_food s1) N1"



text \<open>The number of offspring that \<^verbatim>\<open>reproduce\<close> draws in state \<open>s\<close>.\<close>

definition offspring_count :: "ecosystem \<Rightarrow> nat" where
  "offspring_count s = nat (fst (randint 1 3 (rng s)))"

text \<open>What \<^verbatim>\<open>reproduce\<close> fixes of a child of the parents \<open>me\<close> and \<open>oc\<close>.\<close>

definition newborn_of :: "creature \<Rightarrow> creature \<Rightarrow> creature \<Rightarrow> bool" where
  "newborn_of me oc child \<longleftrightarrow>
     generation child = generation me + 1 \<and> 10 \<le> energy child \<and> hunger child = 0 \<and>
     reproduction_cooldown child = 0 \<and>
     position child = (floordiv2 (fst (position me) + fst (position oc)),
                       floordiv2 (snd (position me) + snd (position oc)))"

text \<open>
  Two hungry creatures of opposite gender, five units apart, and no food: the second
  end-to-end scenario of the specification.
\<close>

definition adam :: creature where
  "adam = \<lparr>energy = 100, position = (100, 100), gender = Male, generation = 0,
           hunger = 60, speed = 1, reproduction_cooldown = 0\<rparr>"

definition eve :: creature where
  "eve = \<lparr>energy = 100, position = (105, 100), gender = Female, generation = 0,
          hunger = 60, speed = 1, reproduction_cooldown = 0\<rparr>"

definition eden :: ecosystem where
  "eden = \<lparr>creatures = [0, 1], foods = [], heap = (\<lambda>_. adam)(1 := eve), next_ref = 2,
           rng = (\<lambda>_. 0)\<rparr>"

text \<open>The same pair while the second creature is still in its refractory period.\<close>

definition eden_cooling :: ecosystem where
  "eden_cooling = eden\<lparr>heap := (heap eden)(1 := eve\<lparr>reproduction_cooldown := 274\<rparr>)\<rparr>"

text \<open>
  What \<^verbatim>\<open>spawn_food\<close> promises of an item: energy in \<open>[3, 7]\<close>, position in the
  world less the footprint of 10 units.
\<close>

definition spawned_ok :: "food \<Rightarrow> bool" where
  "spawned_ok f \<longleftrightarrow>
     3 \<le> energyContent f \<and> energyContent f \<le> 7 \<and>
     0 \<le> fst (food_position f) \<and> fst (food_position f) \<le> SCREEN_WIDTH - 10 \<and>
     0 \<le> snd (food_position f) \<and> snd (food_position f) \<le> SCREEN_HEIGHT - 10"

text \<open>
  One creature with hunger 0 and energy 100 and a single food item 200 units to its
  east: the first end-to-end scenario of the specification.
\<close>

definition grazer :: creature where
  "grazer = \<lparr>energy = 100, position = (100, 100), gender = Male, generation = 0,
             hunger = 0, speed = 1, reproduction_cooldown = 0\<rparr>"

definition berry :: food where
  "berry = \<lparr>energyContent = 5, food_position = (300, 100)\<rparr>"

definition meadow :: ecosystem where
  "meadow = \<lparr>creatures = [0], foods = [berry], heap = (\<lambda>_. grazer), next_ref = 1,
             rng = (\<lambda>_. 0)\<rparr>"

text \<open>One creature half a unit of energy above the death threshold, next to a food item.\<close>

definition starving :: creature where
  "starving = \<lparr>energy = - 599 / 2, position = (100, 100), gender = Male, generation = 0,
               hunger = 0, speed = 1, reproduction_cooldown = 0\<rparr>"

definition crumb :: food where
  "crumb = \<lparr>energyContent = 5, food_position = (105, 100)\<rparr>"

definition deathbed :: ecosystem where
  "deathbed = \<lparr>creatures = [0], foods = [crumb], heap = (\<lambda>_. starving), next_ref = 1,
               rng = (\<lambda>_. 0)\<rparr>"

section \<open>Random draws and reproduction: auxiliary facts\<close>

lemma randint_range: "a \<le> b \<Longrightarrow> a \<le> fst (randint a b g) \<and> fst (randint a b g) \<le> b"
proof -
  assume ab: "a \<le> b"
  have "g 0 mod nat (b - a + 1) < nat (b - a + 1)"
    using ab by (intro mod_less_divisor) simp
  then have "int (g 0 mod nat (b - a + 1)) < b - a + 1"
    using ab by linarith
  then show ?thesis
    by (simp add: randint_def rng_next_def)
qed

lemma offspring_count_range: "1 \<le> offspring_count s \<and> offspring_count s \<le> 3"
  using randint_range[of 1 3 "rng s"] unfolding offspring_count_def by linarith

lemma make_offspring_frame:
  "creatures (make_offspring s a b) = creatures s @ [next_ref s]"
  "next_ref (make_offspring s a b) = Suc (next_ref s)"
  "foods (make_offspring s a b) = foods s"
  "r \<noteq> next_ref s \<Longrightarrow> heap (make_offspring s a b) r = heap s r"
  by (simp_all add: make_offspring_def Let_def Creature_init_def split: prod.splits)

lemma make_offspring_newborn:
  "newborn_of (heap s a) (heap s b) (heap (make_offspring s a b) (next_ref s))"
  by (simp add: newborn_of_def make_offspring_def Let_def Creature_init_def split: prod.splits)

lemma offspring_loop_frame:
  "creatures (offspring_loop n s a b) = creatures s @ [next_ref s ..< next_ref s + n]"
  "next_ref (offspring_loop n s a b) = next_ref s + n"
  "foods (offspring_loop n s a b) = foods s"
  "r < next_ref s \<Longrightarrow> heap (offspring_loop n s a b) r = heap s r"
proof (induction n arbitrary: s)
  case 0
  { case 1 show ?case by simp }
  { case 2 show ?case by simp }
  { case 3 show ?case by simp }
  { case 4 show ?case by simp }
next
  case (Suc n)
  { case 1 show ?case by (simp add: Suc.IH(1) make_offspring_frame upt_rec[of "next_ref s"]) }
  { case 2 show ?case by (simp add: Suc.IH(2) make_offspring_frame) }
  { case 3 show ?case by (simp add: Suc.IH(3) make_offspring_frame) }
  { case 4 then show ?case by (simp add: Suc.IH(4) make_offspring_frame) }
qed

text \<open>
  Later rounds of the loop read the parents again; they find them unchanged, since
  the children are fresh objects.
\<close>

lemma offspring_loop_newborn:
  assumes "a < next_ref s" and "b < next_ref s"
    and "next_ref s \<le> r" and "r < next_ref s + n"
  shows "newborn_of (heap s a) (heap s b) (heap (offspring_loop n s a b) r)"
  using assms
proof (induction n arbitrary: s)
  case 0
  then show ?case by simp
next
  case (Suc n)
  let ?s1 = "make_offspring s a b"
  show ?case
  proof (cases "r = next_ref s")
    case True
    then have "heap (offspring_loop n ?s1 a b) r = heap ?s1 r"
      by (intro offspring_loop_frame(4)) (simp add: make_offspring_frame)
    then show ?thesis
      using True by (simp add: make_offspring_newborn)
  next
    case False
    have "newborn_of (heap ?s1 a) (heap ?s1 b) (heap (offspring_loop n ?s1 a b) r)"
      using Suc.prems False by (intro Suc.IH) (simp_all add: make_offspring_frame)
    moreover have "heap ?s1 a = heap s a" "heap ?s1 b = heap s b"
      using Suc.prems by (simp_all add: make_offspring_frame)
    ultimately show ?thesis by simp
  qed
qed

lemma reproduce_unfold:
  assumes "gender (heap s a) \<noteq> gender (heap s b)"
    and "reproduction_cooldown (heap s a) \<le> 0" and "reproduction_cooldown (heap s b) \<le> 0"
  shows "reproduce s a b =
           offspring_loop (offspring_count s)
             (s\<lparr>heap := (heap s)(a := (heap s a)\<lparr>reproduction_cooldown := 275\<rparr>,
                                  b := (heap s b)\<lparr>reproduction_cooldown := 275\<rparr>),
                rng := snd (randint 1 3 (rng s))\<rparr>) a b"
proof -
  have ab: "a \<noteq> b"
    using assms(1) by auto
  show ?thesis
    using assms ab by (simp add: reproduce_def Let_def offspring_count_def split: prod.splits)
qed

lemma reproduce_props:
  assumes "gender (heap s a) \<noteq> gender (heap s b)"
    and "reproduction_cooldown (heap s a) \<le> 0" and "reproduction_cooldown (heap s b) \<le> 0"
    and "a < next_ref s" and "b < next_ref s"
  shows "creatures (reproduce s a b) = creatures s @ [next_ref s ..< next_ref s + offspring_count s]"
    and "reproduction_cooldown (heap (reproduce s a b) a) = 275"
    and "reproduction_cooldown (heap (reproduce s a b) b) = 275"
    and "next_ref s \<le> r \<Longrightarrow> r < next_ref s + offspring_count s \<Longrightarrow>
           newborn_of (heap s a) (heap s b) (heap (reproduce s a b) r)"
proof -
  let ?s2 = "s\<lparr>heap := (heap s)(a := (heap s a)\<lparr>reproduction_cooldown := 275\<rparr>,
                                  b := (heap s b)\<lparr>reproduction_cooldown := 275\<rparr>),
                rng := snd (randint 1 3 (rng s))\<rparr>"
  have ab: "a \<noteq> b"
    using assms(1) by auto
  have u: "reproduce s a b = offspring_loop (offspring_count s) ?s2 a b"
    using assms(1-3) by (rule reproduce_unfold)
  show "creatures (reproduce s a b) = creatures s @ [next_ref s ..< next_ref s + offspring_count s]"
    by (simp add: u offspring_loop_frame)
  show "reproduction_cooldown (heap (reproduce s a b) a) = 275"
    using assms(4) ab by (simp add: u offspring_loop_frame)
  show "reproduction_cooldown (heap (reproduce s a b) b) = 275"
    using assms(5) by (simp add: u offspring_loop_frame)
  assume r: "next_ref s \<le> r" "r < next_ref s + offspring_count s"
  have "newborn_of (heap ?s2 a) (heap ?s2 b) (heap (offspring_loop (offspring_count s) ?s2 a b) r)"
    using assms(4,5) r by (intro offspring_loop_newborn) simp_all
  then show "newborn_of (heap s a) (heap s b) (heap (reproduce s a b) r)"
    using ab by (simp add: u newborn_of_def)
qed

lemma eden_offspring_count: "offspring_count eden = 1"
  by (simp add: offspring_count_def eden_def randint_def rng_next_def)

section \<open>Reproduction: what a call does\<close>



text \<open>
  Claim C3. No reproduction between two creatures of the same gender, nor when the
  cooldown of either participant is not zero: \<^verbatim>\<open>reproduce\<close> returns the state as it
  was, with no cooldown set, no offspring appended and no random draw made. Cooldowns
  are counters that never go below zero, in every state of a run
  (\<open>reachable_live_creature\<close>); the guard of the source tests \<open>> 0\<close>.
\<close>

theorem reproduce_guard:
  assumes "0 \<le> reproduction_cooldown (heap s a)" and "0 \<le> reproduction_cooldown (heap s b)"
    and "gender (heap s a) = gender (heap s b) \<or> reproduction_cooldown (heap s a) \<noteq> 0
         \<or> reproduction_cooldown (heap s b) \<noteq> 0"
  shows "reproduce s a b = s"
  using assms by (auto simp: reproduce_def)

theorem reproduce_guard_witness:
  "0 \<le> reproduction_cooldown (heap eden_cooling 0) \<and>
   0 \<le> reproduction_cooldown (heap eden_cooling 1) \<and>
   reproduction_cooldown (heap eden_cooling 1) \<noteq> 0 \<and>
   reproduce eden_cooling 0 1 = eden_cooling"
proof -
  have h: "0 \<le> reproduction_cooldown (heap eden_cooling 0)"
    "0 \<le> reproduction_cooldown (heap eden_cooling 1)"
    "reproduction_cooldown (heap eden_cooling 1) \<noteq> 0"
    by (simp_all add: eden_cooling_def eden_def adam_def eve_def)
  show ?thesis
    using h reproduce_guard[of eden_cooling 0 1] by blast
qed

text \<open>
  Claim C8, as the code has it. The claim says that the position of each offspring is
  exactly \<open>((xA + xB) / 2, (yA + yB) / 2)\<close>. The source divides with \<^verbatim>\<open>//\<close>: for the
  parents of \<open>eden\<close>, at \<open>x = 100\<close> and \<open>x = 105\<close>, the offspring is born at \<open>x = 102\<close>
  and not at \<open>102.5\<close>.
\<close>

theorem offspring_position_counterexample:
  "creatures (reproduce eden 0 1) = [0, 1, 2] \<and>
   position (heap (reproduce eden 0 1) 2) \<noteq>
     ((fst (position (heap eden 0)) + fst (position (heap eden 1))) / 2,
      (snd (position (heap eden 0)) + snd (position (heap eden 1))) / 2)"
proof -
  have h: "gender (heap eden 0) \<noteq> gender (heap eden 1)"
    "reproduction_cooldown (heap eden 0) \<le> 0" "reproduction_cooldown (heap eden 1) \<le> 0"
    "0 < next_ref eden" "1 < next_ref eden"
    by (simp_all add: eden_def adam_def eve_def)
  have n: "next_ref eden = 2"
    by (simp add: eden_def)
  have "creatures (reproduce eden 0 1) = creatures eden @ [2 ..< 2 + 1]"
    using reproduce_props(1)[OF h] by (simp add: n eden_offspring_count)
  then have c: "creatures (reproduce eden 0 1) = [0, 1, 2]"
    by (simp add: eden_def)
  have "newborn_of (heap eden 0) (heap eden 1) (heap (reproduce eden 0 1) 2)"
    by (rule reproduce_props(4)[OF h]) (simp_all add: n eden_offspring_count)
  then have "position (heap (reproduce eden 0 1) 2) = (102, 100)"
    by (simp add: newborn_of_def eden_def adam_def eve_def floordiv2_def)
  then show ?thesis
    using c by (simp add: eden_def adam_def eve_def)
qed

text \<open>
  Claim C8, amended. For every reproduction event, the position of each offspring is
  the midpoint of the positions of the two parents rounded down: componentwise the
  floor of \<open>(xA + xB) / 2\<close> and of \<open>(yA + yB) / 2\<close>.
\<close>

theorem offspring_position:
  assumes "gender (heap s a) \<noteq> gender (heap s b)"
    and "reproduction_cooldown (heap s a) \<le> 0" and "reproduction_cooldown (heap s b) \<le> 0"
    and "a < next_ref s" and "b < next_ref s"
  shows "\<exists>new. creatures (reproduce s a b) = creatures s @ new \<and> new \<noteq> [] \<and>
           (\<forall>r \<in> set new. position (heap (reproduce s a b) r) =
              (real_of_int \<lfloor>(fst (position (heap s a)) + fst (position (heap s b))) / 2\<rfloor>,
               real_of_int \<lfloor>(snd (position (heap s a)) + snd (position (heap s b))) / 2\<rfloor>))"
proof -
  let ?new = "[next_ref s ..< next_ref s + offspring_count s]"
  note props = reproduce_props[OF assms]
  have ne: "?new \<noteq> []"
    using offspring_count_range[of s] by simp
  have each: "\<forall>r \<in> set ?new. position (heap (reproduce s a b) r) =
              (real_of_int \<lfloor>(fst (position (heap s a)) + fst (position (heap s b))) / 2\<rfloor>,
               real_of_int \<lfloor>(snd (position (heap s a)) + snd (position (heap s b))) / 2\<rfloor>)"
    using props(4) by (auto simp: newborn_of_def floordiv2_def)
  show ?thesis
    using props(1) ne each by blast
qed

theorem offspring_position_witness:
  "gender (heap eden 0) \<noteq> gender (heap eden 1) \<and>
   reproduction_cooldown (heap eden 0) \<le> 0 \<and> reproduction_cooldown (heap eden 1) \<le> 0 \<and>
   0 < next_ref eden \<and> 1 < next_ref eden \<and>
   (\<exists>new. creatures (reproduce eden 0 1) = creatures eden @ new \<and> new \<noteq> [] \<and>
           (\<forall>r \<in> set new. position (heap (reproduce eden 0 1) r) = (102, 100)))"
proof -
  have h: "gender (heap eden 0) \<noteq> gender (heap eden 1)"
    "reproduction_cooldown (heap eden 0) \<le> 0" "reproduction_cooldown (heap eden 1) \<le> 0"
    "0 < next_ref eden" "1 < next_ref eden"
    by (simp_all add: eden_def adam_def eve_def)
  have m: "real_of_int \<lfloor>(fst (position (heap eden 0)) + fst (position (heap eden 1))) / 2\<rfloor> = 102"
    "real_of_int \<lfloor>(snd (position (heap eden 0)) + snd (position (heap eden 1))) / 2\<rfloor> = 100"
    by (simp_all add: eden_def adam_def eve_def)
  show ?thesis
    using h offspring_position[OF h] unfolding m by blast
qed



section \<open>Speed and movement\<close>


lemma moveRandomly_position:
  "position (heap (moveRandomly s c) c) =
     (max 0 (min 800 (fst (position (heap s c)) + real_of_int (fst (randint (- 10) 10 (rng s))))),
      max 0 (min 600 (snd (position (heap s c))
         + real_of_int (fst (randint (- 10) 10 (snd (randint (- 10) 10 (rng s))))))))"
  by (simp add: moveRandomly_def split: prod.splits)

lemma moveRandomly_frame:
  "creatures (moveRandomly s c) = creatures s"
  "foods (moveRandomly s c) = foods s"
  "next_ref (moveRandomly s c) = next_ref s"
  "r \<noteq> c \<Longrightarrow> heap (moveRandomly s c) r = heap s r"
  "hunger (heap (moveRandomly s c) c) = hunger (heap s c)"
  "energy (heap (moveRandomly s c) c) = energy (heap s c)"
  "reproduction_cooldown (heap (moveRandomly s c) c) = reproduction_cooldown (heap s c)"
  by (simp_all add: moveRandomly_def split: prod.splits)

lemma moveRandomly_displacement:
  assumes "in_bounds (position (heap s c))"
  shows "\<bar>fst (position (heap (moveRandomly s c) c)) - fst (position (heap s c))\<bar> \<le> 10 \<and>
         \<bar>snd (position (heap (moveRandomly s c) c)) - snd (position (heap s c))\<bar> \<le> 10"
proof -
  have rx: "- 10 \<le> fst (randint (- 10) 10 (rng s)) \<and> fst (randint (- 10) 10 (rng s)) \<le> 10"
    by (rule randint_range) simp
  have ry: "- 10 \<le> fst (randint (- 10) 10 (snd (randint (- 10) 10 (rng s)))) \<and>
            fst (randint (- 10) 10 (snd (randint (- 10) 10 (rng s)))) \<le> 10"
    by (rule randint_range) simp
  show ?thesis
    using rx ry assms unfolding moveRandomly_position in_bounds_def by (auto simp: max_def min_def)
qed

text \<open>
  Claim C6. After \<^verbatim>\<open>moveRandomly\<close> and after \<^verbatim>\<open>moveTowards\<close>, for any target, any
  speed and any random draws, the position lies in \<open>[0, 800] \<times> [0, 600]\<close>; and
  \<^verbatim>\<open>moveRandomly\<close> displaces a creature that was inside the world by at most 10
  units on each axis. Every creature of a run is inside the world
  (\<open>reachable_live_creature\<close>).
\<close>

theorem moves_stay_in_bounds:
  "in_bounds (position (heap (moveRandomly s c) c)) \<and>
   in_bounds (position (heap (moveTowards s c target) c)) \<and>
   (in_bounds (position (heap s c)) \<longrightarrow>
      \<bar>fst (position (heap (moveRandomly s c) c)) - fst (position (heap s c))\<bar> \<le> 10 \<and>
      \<bar>snd (position (heap (moveRandomly s c) c)) - snd (position (heap s c))\<bar> \<le> 10)"
proof -
  have a: "in_bounds (position (heap (moveRandomly s c) c))"
    by (simp add: moveRandomly_position in_bounds_def)
  have b: "in_bounds (position (heap (moveTowards s c target) c))"
    by (simp add: moveTowards_def Let_def in_bounds_def)
  from a b moveRandomly_displacement[of s c] show ?thesis
    by blast
qed

theorem moves_stay_in_bounds_witness:
  "in_bounds (position (heap eden 0)) \<and>
   in_bounds (position (heap (moveRandomly eden 0) 0)) \<and>
   in_bounds (position (heap (moveTowards eden 0 (105, 100)) 0)) \<and>
   \<bar>fst (position (heap (moveRandomly eden 0) 0)) - fst (position (heap eden 0))\<bar> \<le> 10 \<and>
   \<bar>snd (position (heap (moveRandomly eden 0) 0)) - snd (position (heap eden 0))\<bar> \<le> 10"
proof -
  have h: "in_bounds (position (heap eden 0))"
    by (simp add: in_bounds_def eden_def adam_def)
  show ?thesis
    using h moves_stay_in_bounds[of eden 0 "(105, 100)"] by blast
qed

section \<open>Food supply\<close>

declare spawn_food.simps [simp del]

lemma spawn_food_frame:
  "creatures (spawn_food s) = creatures s"
  "heap (spawn_food s) = heap s"
  "next_ref (spawn_food s) = next_ref s"
proof (induction s rule: spawn_food.induct)
  case (1 s)
  { case 1 show ?case using "1.IH"(1) by (subst spawn_food.simps) (simp split: prod.splits) }
  { case 2 show ?case using "1.IH"(2) by (subst spawn_food.simps) (simp split: prod.splits) }
  { case 3 show ?case using "1.IH"(3) by (subst spawn_food.simps) (simp split: prod.splits) }
qed

lemma spawn_food_appends:
  "\<exists>new. foods (spawn_food s) = foods s @ new \<and>
         length new = 50 - length (foods s) \<and> (\<forall>f \<in> set new. spawned_ok f)"
proof (induction s rule: spawn_food.induct)
  case (1 s)
  show ?case
  proof (cases "length (foods s) < 50")
    case False
    then show ?thesis by (subst spawn_food.simps) simp
  next
    case True
    obtain x g1 where x: "randint 0 (SCREEN_WIDTH - 10) (rng s) = (x, g1)" by force
    obtain y g2 where y: "randint 0 (SCREEN_HEIGHT - 10) g1 = (y, g2)" by force
    obtain e g3 where e: "randint 3 7 g2 = (e, g3)" by force
    let ?f = "\<lparr>energyContent = e, food_position = (x, y)\<rparr>"
    let ?s1 = "s\<lparr>foods := foods s @ [?f], rng := g3\<rparr>"
    have step: "spawn_food s = spawn_food ?s1"
      using True x y e by (subst spawn_food.simps) simp
    have ok: "spawned_ok ?f"
      using randint_range[of 0 "SCREEN_WIDTH - 10" "rng s"] randint_range[of 0 "SCREEN_HEIGHT - 10" g1]
        randint_range[of 3 7 g2] x y e
      by (simp add: spawned_ok_def)
    from "1.IH"[OF True x[symmetric] y[symmetric] e[symmetric]]
    obtain new where new: "foods (spawn_food ?s1) = foods ?s1 @ new"
      "length new = 50 - length (foods ?s1)" "\<forall>f \<in> set new. spawned_ok f"
      by blast
    have "foods (spawn_food s) = foods s @ (?f # new)"
      using new(1) step by simp
    moreover have "length (?f # new) = 50 - length (foods s)"
      using new(2) True by simp
    moreover have "\<forall>f \<in> set (?f # new). spawned_ok f"
      using new(3) ok by simp
    ultimately show ?thesis by blast
  qed
qed

text \<open>
  Claim C5. The food list starts empty and only \<^verbatim>\<open>spawn_food\<close> appends to it, so it
  never holds more than 50 items when \<^verbatim>\<open>spawn_food\<close> is called
  (\<open>reachable_food_cap\<close>). After the call it
  holds exactly 50, hence never more than 50; the old items are kept in place, and
  each appended item has an integer energy content in \<open>[3, 7]\<close> and a position in
  \<open>[0, 790] \<times> [0, 590]\<close>.
\<close>

theorem spawn_food_cap:
  assumes "length (foods s) \<le> 50"
  shows "length (foods (spawn_food s)) = 50 \<and>
         (\<exists>new. foods (spawn_food s) = foods s @ new \<and>
                 length new = 50 - length (foods s) \<and> (\<forall>f \<in> set new. spawned_ok f))"
proof -
  obtain new where new: "foods (spawn_food s) = foods s @ new"
    "length new = 50 - length (foods s)" "\<forall>f \<in> set new. spawned_ok f"
    using spawn_food_appends[of s] by blast
  have "length (foods (spawn_food s)) = 50"
    using new(1,2) assms by simp
  then show ?thesis
    using new by blast
qed

theorem spawn_food_cap_witness:
  "length (foods eden) \<le> 50 \<and> length (foods (spawn_food eden)) = 50 \<and>
   (\<exists>new. foods (spawn_food eden) = foods eden @ new \<and>
           length new = 50 - length (foods eden) \<and> (\<forall>f \<in> set new. spawned_ok f))"
proof -
  have h: "length (foods eden) \<le> 50"
    by (simp add: eden_def)
  show ?thesis
    using h spawn_food_cap[OF h] by blast
qed

section \<open>One tick of the ecosystem\<close>

lemma distance_to_east: "distance_to (x, y) (x + d, y) = \<bar>d\<bar>"
  by (simp add: distance_to_def)

lemma manage_loop_end:
  "length (creatures s) \<le> i \<Longrightarrow> manage_loop s i = Some (Inr s)"
  by (subst manage_loop.simps) simp

lemma manage_loop_step:
  "i < length (creatures s) \<Longrightarrow> update s (creatures s ! i) = Inr s1 \<Longrightarrow>
   manage_loop s i = manage_loop (seekFood s1 (creatures s ! i)) (Suc i)"
  by (subst manage_loop.simps) simp

lemma update_survives:
  assumes "- 300 < energy (heap s c) - 1 / 2"
  shows "\<exists>s1. update s c = Inr s1 \<and> creatures s1 = creatures s \<and> foods s1 = foods s \<and>
           rng s1 = rng s \<and> next_ref s1 = next_ref s \<and>
           (\<forall>r. r \<noteq> c \<longrightarrow> heap s1 r = heap s r) \<and>
           hunger (heap s1 c) = hunger (heap s c) + 1 \<and>
           energy (heap s1 c) = energy (heap s c) - 1 / 2 \<and>
           speed (heap s1 c) = min 5 (1 + real_of_int (hunger (heap s c) + 1) / 100) \<and>
           position (heap s1 c) = position (heap s c) \<and>
           gender (heap s1 c) = gender (heap s c) \<and>
           reproduction_cooldown (heap s1 c) =
             (if reproduction_cooldown (heap s c) > 0 then reproduction_cooldown (heap s c) - 1
              else reproduction_cooldown (heap s c))"
  using assms by (simp add: update_def Let_def adjust_speed_based_on_hunger_def)

lemma manage_single_forage:
  assumes "creatures s = [c]" and "foods s = [f]"
    and "hunger (heap s c) = 0" and "energy (heap s c) = 100"
    and "food_position f = (fx, fy)"
    and "position (heap s c) = (real_of_int fx - 200, real_of_int fy)"
    and "in_bounds (position (heap s c))"
  shows "\<exists>s'. manage s = Some (Inr s') \<and> creatures s' = [c] \<and>
           hunger (heap s' c) = 1 \<and> energy (heap s' c) = 199 / 2 \<and>
           speed (heap s' c) = 101 / 100 \<and>
           position (heap s' c) =
             (min 800 (real_of_int fx - 200 + 101 / 100), real_of_int fy) \<and>
           f \<in> set (foods s')"
proof -
  obtain s1 where s1: "update s c = Inr s1" "creatures s1 = [c]" "foods s1 = [f]"
    "hunger (heap s1 c) = 1" "energy (heap s1 c) = 199 / 2" "speed (heap s1 c) = 101 / 100"
    "position (heap s1 c) = (real_of_int fx - 200, real_of_int fy)"
    using update_survives[of s c] assms by auto
  let ?s2 = "seekFood s1 c"
  have d: "distance_to (real_of_int fx - 200, real_of_int fy) (real_of_int fx, real_of_int fy) = 200"
    using distance_to_east[of "real_of_int fx - 200" "real_of_int fy" 200] by simp
  have b: "200 \<le> real_of_int fx" "0 \<le> real_of_int fy" "real_of_int fy \<le> 600"
    using assms(6,7) by (simp_all add: in_bounds_def)
  have mt: "position (heap (moveTowards s1 c (real_of_int fx, real_of_int fy)) c) =
      (min 800 (real_of_int fx - 200 + 101 / 100), real_of_int fy)"
    using b by (simp add: moveTowards_def Let_def s1 d max_def min_def)
  have no: "\<not> isOverlapping f (position (heap (moveTowards s1 c (real_of_int fx, real_of_int fy)) c))"
    unfolding mt using b by (simp add: isOverlapping_def assms(5) min_def)
  have s2: "?s2 = moveTowards s1 c (real_of_int fx, real_of_int fy)"
    using no by (simp add: seekFood_def forage_def s1 real_pos_def assms(5) Let_def)
  have s2': "creatures ?s2 = [c]" "foods ?s2 = [f]" "hunger (heap ?s2 c) = 1"
    "energy (heap ?s2 c) = 199 / 2" "speed (heap ?s2 c) = 101 / 100"
    unfolding s2 by (simp_all add: moveTowards_def Let_def s1)
  have "manage_loop s 0 = manage_loop ?s2 (Suc 0)"
    using manage_loop_step[of 0 s s1] s1(1) assms(1) by simp
  also have "\<dots> = Some (Inr ?s2)"
    by (rule manage_loop_end) (simp add: s2')
  finally have m: "manage s = Some (Inr (spawn_food ?s2))"
    by (simp add: manage_def)
  obtain new where new: "foods (spawn_food ?s2) = foods ?s2 @ new"
    using spawn_food_appends[of ?s2] by blast
  have "f \<in> set (foods (spawn_food ?s2))"
    unfolding new by (simp add: s2')
  then show ?thesis
    using m s2' mt s2 by (simp add: spawn_food_frame)
qed

lemma manage_no_food_pair:
  assumes "creatures s = [a, b]" and "a \<noteq> b" and "foods s = []"
    and "reproduction_cooldown (heap s a) = 0" and "reproduction_cooldown (heap s b) = 0"
    and "- 300 < energy (heap s a) - 1 / 2" and "- 300 < energy (heap s b) - 1 / 2"
    and "in_bounds (position (heap s a))" and "in_bounds (position (heap s b))"
  shows "\<exists>s'. manage s = Some (Inr s') \<and> creatures s' = [a, b] \<and> next_ref s' = next_ref s \<and>
           reproduction_cooldown (heap s' a) = 0 \<and> reproduction_cooldown (heap s' b) = 0 \<and>
           hunger (heap s' a) = hunger (heap s a) + 1 \<and> hunger (heap s' b) = hunger (heap s b) + 1 \<and>
           \<bar>fst (position (heap s' a)) - fst (position (heap s a))\<bar> \<le> 10 \<and>
           \<bar>snd (position (heap s' a)) - snd (position (heap s a))\<bar> \<le> 10 \<and>
           \<bar>fst (position (heap s' b)) - fst (position (heap s b))\<bar> \<le> 10 \<and>
           \<bar>snd (position (heap s' b)) - snd (position (heap s b))\<bar> \<le> 10"
proof -
  obtain s1 where s1: "update s a = Inr s1" "creatures s1 = [a, b]" "foods s1 = []"
    "next_ref s1 = next_ref s" "heap s1 b = heap s b"
    "hunger (heap s1 a) = hunger (heap s a) + 1" "reproduction_cooldown (heap s1 a) = 0"
    "position (heap s1 a) = position (heap s a)"
    using update_survives[OF assms(6)] assms(1-4) by auto
  let ?s2 = "seekFood s1 a"
  have s2: "?s2 = moveRandomly s1 a"
    by (simp add: seekFood_def s1)
  have s2f: "creatures ?s2 = [a, b]" "foods ?s2 = []" "next_ref ?s2 = next_ref s"
    "heap ?s2 b = heap s b" "hunger (heap ?s2 a) = hunger (heap s a) + 1"
    "reproduction_cooldown (heap ?s2 a) = 0"
    using assms(2) by (simp_all add: s2 moveRandomly_frame s1)
  have da: "\<bar>fst (position (heap ?s2 a)) - fst (position (heap s a))\<bar> \<le> 10 \<and>
            \<bar>snd (position (heap ?s2 a)) - snd (position (heap s a))\<bar> \<le> 10"
    using moveRandomly_displacement[of s1 a] assms(8) by (simp add: s2 s1)
  have eb: "- 300 < energy (heap ?s2 b) - 1 / 2"
    using assms(7) by (simp add: s2f)
  obtain s3 where s3: "update ?s2 b = Inr s3" "creatures s3 = [a, b]" "foods s3 = []"
    "next_ref s3 = next_ref s" "heap s3 a = heap ?s2 a"
    "hunger (heap s3 b) = hunger (heap s b) + 1" "reproduction_cooldown (heap s3 b) = 0"
    "position (heap s3 b) = position (heap s b)"
    using update_survives[OF eb] assms(2,5) s2f by auto
  let ?s4 = "seekFood s3 b"
  have s4: "?s4 = moveRandomly s3 b"
    by (simp add: seekFood_def s3)
  have s4f: "creatures ?s4 = [a, b]" "next_ref ?s4 = next_ref s"
    "heap ?s4 a = heap ?s2 a" "hunger (heap ?s4 b) = hunger (heap s b) + 1"
    "reproduction_cooldown (heap ?s4 b) = 0"
    using assms(2) by (simp_all add: s4 moveRandomly_frame s3)
  have db: "\<bar>fst (position (heap ?s4 b)) - fst (position (heap s b))\<bar> \<le> 10 \<and>
            \<bar>snd (position (heap ?s4 b)) - snd (position (heap s b))\<bar> \<le> 10"
    using moveRandomly_displacement[of s3 b] assms(9) by (simp add: s4 s3)
  have "manage_loop s 0 = manage_loop ?s2 (Suc 0)"
    using manage_loop_step[of 0 s s1] s1(1) assms(1) by simp
  also have "\<dots> = manage_loop ?s4 (Suc (Suc 0))"
    using manage_loop_step[of "Suc 0" ?s2 s3] s3(1) s2f(1) by simp
  also have "\<dots> = Some (Inr ?s4)"
    by (rule manage_loop_end) (simp add: s4f)
  finally have m: "manage s = Some (Inr (spawn_food ?s4))"
    by (simp add: manage_def)
  show ?thesis
    using m s4f s2f da db by (simp add: spawn_food_frame)
qed

lemma distance_5: "distance_to (100, 100) (105, 100) = 5"
  using distance_to_east[of 100 100 5] by simp

lemma meadow_facts:
  "creatures meadow = [0]" "foods meadow = [berry]"
  "hunger (heap meadow 0) = 0" "energy (heap meadow 0) = 100"
  "food_position berry = (300, 100)"
  "position (heap meadow 0) = (real_of_int 300 - 200, real_of_int 100)"
  "in_bounds (position (heap meadow 0))"
  by (simp_all add: meadow_def grazer_def berry_def in_bounds_def)

lemma eden_facts:
  "creatures eden = [0, 1]" "(0::nat) \<noteq> 1" "foods eden = []"
  "gender (heap eden 0) \<noteq> gender (heap eden 1)"
  "hunger (heap eden 0) = 60" "hunger (heap eden 1) = 60"
  "reproduction_cooldown (heap eden 0) = 0" "reproduction_cooldown (heap eden 1) = 0"
  "distance_to (position (heap eden 0)) (position (heap eden 1)) = 5"
  "- 300 < energy (heap eden 0) - 1 / 2" "- 300 < energy (heap eden 1) - 1 / 2"
  "in_bounds (position (heap eden 0))" "in_bounds (position (heap eden 1))"
  by (simp_all add: eden_def adam_def eve_def in_bounds_def distance_5)

lemma update_death_removes:
  assumes "energy (heap s c) - 1 / 2 \<le> - 300" and "c \<in> set (creatures s)"
    and "distinct (creatures s)"
  shows "\<exists>s'. update s c = Inr s' \<and> c \<notin> set (creatures s') \<and>
           creatures s' = remove1 c (creatures s)"
  using assms by (simp add: update_def Let_def adjust_speed_based_on_hunger_def die_def)

text \<open>
  Claim C9, as the code has it. The claim lets the creature move east by a speed of 1
  unit. \<^verbatim>\<open>update\<close> has raised the hunger to 1 and recomputed the speed to 1.01
  before the move: in \<open>meadow\<close> the creature goes from \<open>x = 100\<close> to \<open>x = 101.01\<close>.
\<close>

theorem single_forager_counterexample:
  "hunger (heap meadow 0) = 0 \<and> energy (heap meadow 0) = 100 \<and>
   creatures meadow = [0] \<and> foods meadow = [berry] \<and>
   position (heap meadow 0) = (100, 100) \<and> real_pos (food_position berry) = (300, 100) \<and>
   (\<exists>s'. manage meadow = Some (Inr s') \<and>
          speed (heap s' 0) = 101 / 100 \<and>
          position (heap s' 0) = (10101 / 100, 100) \<and>
          position (heap s' 0) \<noteq> (fst (position (heap meadow 0)) + 1, snd (position (heap meadow 0))))"
proof -
  obtain s' where s': "manage meadow = Some (Inr s')" "speed (heap s' 0) = 101 / 100"
    "position (heap s' 0) = (min 800 (real_of_int 300 - 200 + 101 / 100), real_of_int 100)"
    using manage_single_forage[OF meadow_facts] by blast
  have "position (heap s' 0) = (10101 / 100, 100)"
    unfolding s'(3) by simp
  then show ?thesis
    using s'(1,2) by (auto simp: meadow_def grazer_def berry_def real_pos_def)
qed

text \<open>
  Claim C9, amended. A single creature with hunger 0 and energy 100, inside the
  world, and exactly one food item at distance 200 directly east of it. After one
  tick the hunger is 1, the energy is 99.5, the speed is 1.01, the position has moved
  east by 1.01 units (clamped to the bound 800), and the food item is still present.
\<close>

theorem single_forager_tick:
  assumes "creatures s = [c]" and "foods s = [f]"
    and "hunger (heap s c) = 0" and "energy (heap s c) = 100"
    and "food_position f = (fx, fy)"
    and "position (heap s c) = (real_of_int fx - 200, real_of_int fy)"
    and "in_bounds (position (heap s c))"
  shows "\<exists>s'. manage s = Some (Inr s') \<and> creatures s' = [c] \<and>
           hunger (heap s' c) = 1 \<and> energy (heap s' c) = 199 / 2 \<and>
           speed (heap s' c) = 101 / 100 \<and>
           position (heap s' c) =
             (min 800 (fst (position (heap s c)) + 101 / 100), snd (position (heap s c))) \<and>
           f \<in> set (foods s')"
  using manage_single_forage[OF assms] by (simp add: assms(6))

theorem single_forager_tick_witness:
  "creatures meadow = [0] \<and> foods meadow = [berry] \<and>
   hunger (heap meadow 0) = 0 \<and> energy (heap meadow 0) = 100 \<and>
   food_position berry = (300, 100) \<and>
   position (heap meadow 0) = (real_of_int 300 - 200, real_of_int 100) \<and>
   in_bounds (position (heap meadow 0)) \<and>
   (\<exists>s'. manage meadow = Some (Inr s') \<and> creatures s' = [0] \<and>
           hunger (heap s' 0) = 1 \<and> energy (heap s' 0) = 199 / 2 \<and>
           speed (heap s' 0) = 101 / 100 \<and>
           position (heap s' 0) =
             (min 800 (fst (position (heap meadow 0)) + 101 / 100), snd (position (heap meadow 0))) \<and>
           berry \<in> set (foods s'))"
  using meadow_facts single_forager_tick[OF meadow_facts] by blast

text \<open>
  Claim C4, as the code has it. With no food present \<^verbatim>\<open>seekFood\<close> moves the creature
  randomly and returns before it looks for a partner: in \<open>eden\<close> nobody reproduces,
  no cooldown becomes 275 and the collection gains no entry.
\<close>

theorem pair_without_food_counterexample:
  "gender (heap eden 0) \<noteq> gender (heap eden 1) \<and>
   hunger (heap eden 0) = 60 \<and> hunger (heap eden 1) = 60 \<and>
   reproduction_cooldown (heap eden 0) = 0 \<and> reproduction_cooldown (heap eden 1) = 0 \<and>
   distance_to (position (heap eden 0)) (position (heap eden 1)) = 5 \<and>
   creatures eden = [0, 1] \<and> foods eden = [] \<and>
   (\<exists>s'. manage eden = Some (Inr s') \<and> creatures s' = creatures eden \<and>
          reproduction_cooldown (heap s' 0) \<noteq> 275 \<and> reproduction_cooldown (heap s' 1) \<noteq> 275)"
proof -
  obtain s' where s': "manage eden = Some (Inr s')" "creatures s' = [0, 1]"
    "reproduction_cooldown (heap s' 0) = 0" "reproduction_cooldown (heap s' 1) = 0"
    using manage_no_food_pair[OF eden_facts(1-3) eden_facts(7,8) eden_facts(10-13)] by blast
  then have "\<exists>s'. manage eden = Some (Inr s') \<and> creatures s' = creatures eden \<and>
          reproduction_cooldown (heap s' 0) \<noteq> 275 \<and> reproduction_cooldown (heap s' 1) \<noteq> 275"
    using eden_facts(1) by auto
  then show ?thesis
    using eden_facts by blast
qed

text \<open>
  Claim C4, amended. Two live creatures of opposite gender inside the world, both
  with hunger 60 and cooldown 0, five units apart, and no food present. One tick of
  \<^verbatim>\<open>manage\<close> returns; neither creature reproduces: both cooldowns stay 0, the
  collection still holds exactly the two of them and no creature is created. Each
  has hunger 61 and has moved randomly by at most 10 units on each axis.
\<close>

theorem pair_without_food_tick:
  assumes "creatures s = [a, b]" and "foods s = []"
    and "gender (heap s a) \<noteq> gender (heap s b)"
    and "hunger (heap s a) = 60" and "hunger (heap s b) = 60"
    and "reproduction_cooldown (heap s a) = 0" and "reproduction_cooldown (heap s b) = 0"
    and "distance_to (position (heap s a)) (position (heap s b)) = 5"
    and "- 300 < energy (heap s a) - 1 / 2" and "- 300 < energy (heap s b) - 1 / 2"
    and "in_bounds (position (heap s a))" and "in_bounds (position (heap s b))"
  shows "\<exists>s'. manage s = Some (Inr s') \<and> creatures s' = [a, b] \<and> next_ref s' = next_ref s \<and>
           reproduction_cooldown (heap s' a) = 0 \<and> reproduction_cooldown (heap s' b) = 0 \<and>
           hunger (heap s' a) = 61 \<and> hunger (heap s' b) = 61 \<and>
           \<bar>fst (position (heap s' a)) - fst (position (heap s a))\<bar> \<le> 10 \<and>
           \<bar>snd (position (heap s' a)) - snd (position (heap s a))\<bar> \<le> 10 \<and>
           \<bar>fst (position (heap s' b)) - fst (position (heap s b))\<bar> \<le> 10 \<and>
           \<bar>snd (position (heap s' b)) - snd (position (heap s b))\<bar> \<le> 10"
proof -
  have ab: "a \<noteq> b"
    using assms(3) by auto
  show ?thesis
    using manage_no_food_pair[OF assms(1) ab assms(2) assms(6,7) assms(9-12)]
    by (simp add: assms(4,5))
qed

theorem pair_without_food_tick_witness:
  "creatures eden = [0, 1] \<and> foods eden = [] \<and>
   gender (heap eden 0) \<noteq> gender (heap eden 1) \<and>
   hunger (heap eden 0) = 60 \<and> hunger (heap eden 1) = 60 \<and>
   reproduction_cooldown (heap eden 0) = 0 \<and> reproduction_cooldown (heap eden 1) = 0 \<and>
   distance_to (position (heap eden 0)) (position (heap eden 1)) = 5 \<and>
   - 300 < energy (heap eden 0) - 1 / 2 \<and> - 300 < energy (heap eden 1) - 1 / 2 \<and>
   in_bounds (position (heap eden 0)) \<and> in_bounds (position (heap eden 1)) \<and>
   (\<exists>s'. manage eden = Some (Inr s') \<and> creatures s' = [0, 1] \<and> next_ref s' = next_ref eden \<and>
           reproduction_cooldown (heap s' 0) = 0 \<and> reproduction_cooldown (heap s' 1) = 0 \<and>
           hunger (heap s' 0) = 61 \<and> hunger (heap s' 1) = 61 \<and>
           \<bar>fst (position (heap s' 0)) - fst (position (heap eden 0))\<bar> \<le> 10 \<and>
           \<bar>snd (position (heap s' 0)) - snd (position (heap eden 0))\<bar> \<le> 10 \<and>
           \<bar>fst (position (heap s' 1)) - fst (position (heap eden 1))\<bar> \<le> 10 \<and>
           \<bar>snd (position (heap s' 1)) - snd (position (heap eden 1))\<bar> \<le> 10)"
  using eden_facts
    pair_without_food_tick[OF eden_facts(1) eden_facts(3) eden_facts(4) eden_facts(5,6)
      eden_facts(7,8) eden_facts(9) eden_facts(10-13)]
  by blast

text \<open>
  Claim C1, on the code. \<^verbatim>\<open>update\<close> removes a creature whose energy has reached
  \<open>-300\<close> from the collection (\<open>update_death_removes\<close>), but \<^verbatim>\<open>manage\<close> calls
  \<^verbatim>\<open>seekFood\<close> on it all the same. In \<open>deathbed\<close> the creature dies at energy
  \<open>-300\<close> and is removed; then, within the same tick, it moves to \<open>x = 101.01\<close>,
  eats the food item, which leaves the food list, and ends with energy \<open>-295\<close>.
\<close>

theorem dead_creature_still_forages:
  "\<exists>s1. manage_loop deathbed 0 = Some (Inr s1) \<and> manage deathbed = Some (Inr (spawn_food s1)) \<and>
        creatures s1 = [] \<and> foods s1 = [] \<and>
        position (heap s1 0) = (10101 / 100, 100) \<and> energy (heap s1 0) = - 295"
proof -
  let ?dead = "starving\<lparr>hunger := 1, speed := 101 / 100, energy := - 300\<rparr>"
  let ?s1 = "deathbed\<lparr>heap := (heap deathbed)(0 := ?dead), creatures := []\<rparr>"
  let ?m = "moveTowards ?s1 0 (105, 100)"
  let ?s2 = "seekFood ?s1 0"
  have u: "update deathbed 0 = Inr ?s1"
    by (simp add: update_def Let_def adjust_speed_based_on_hunger_def die_def deathbed_def
        starving_def)
  have s1f: "foods ?s1 = [crumb]" "hunger (heap ?s1 0) = 1" "position (heap ?s1 0) = (100, 100)"
    "speed (heap ?s1 0) = 101 / 100"
    by (simp_all add: deathbed_def starving_def)
  have mt: "position (heap ?m 0) = (10101 / 100, 100)"
    by (simp add: moveTowards_def Let_def starving_def distance_5)
  have mf: "creatures ?m = []" "foods ?m = [crumb]" "energy (heap ?m 0) = - 300"
    by (simp_all add: moveTowards_def Let_def deathbed_def starving_def)
  have ov: "isOverlapping crumb (position (heap ?m 0))"
    by (simp add: mt isOverlapping_def crumb_def)
  have tgt: "real_pos (food_position crumb) = (105, 100)"
    by (simp add: real_pos_def crumb_def)
  have f: "forage ?s1 0 = (eat_food ?m 0 crumb)\<lparr>foods := remove1 crumb (foods ?m)\<rparr>"
    using ov by (simp add: forage_def Let_def s1f(1) tgt del: ecosystem.simps)
  have s2: "?s2 = (eat_food ?m 0 crumb)\<lparr>foods := remove1 crumb (foods ?m)\<rparr>"
    unfolding f[symmetric] by (simp add: seekFood_def s1f del: ecosystem.simps)
  have s2f: "creatures ?s2 = []" "foods ?s2 = []" "position (heap ?s2 0) = (10101 / 100, 100)"
    "energy (heap ?s2 0) = - 295"
    unfolding s2 by (simp_all add: eat_food_def mt mf crumb_def)
  have "manage_loop deathbed 0 = manage_loop ?s2 (Suc 0)"
    using manage_loop_step[of 0 deathbed ?s1] u by (simp add: deathbed_def)
  also have "\<dots> = Some (Inr ?s2)"
    by (rule manage_loop_end) (simp add: s2f)
  finally have l: "manage_loop deathbed 0 = Some (Inr ?s2)" .
  then have "manage deathbed = Some (Inr (spawn_food ?s2))"
    by (simp add: manage_def)
  then show ?thesis
    using l s2f by blast
qed

section \<open>The invariant of a run\<close>

text \<open>
  The theorems above assume of their inputs what every state of a run provides:
  allocated parents, non-negative hunger and cooldown, positions inside the world, at
  most 50 food items. This section proves that these hold at start and after every
  tick that returns.
\<close>

lemma update_well_formed:
  assumes "well_formed s" and "update s c = Inr s1"
  shows "well_formed s1 \<and> next_ref s1 = next_ref s"
proof -
  define m where "m = (heap s c)\<lparr>hunger := hunger (heap s c) + 1,
      speed := min 5 (1 + real_of_int (hunger (heap s c) + 1) / 100),
      reproduction_cooldown := (if reproduction_cooldown (heap s c) > 0
         then reproduction_cooldown (heap s c) - 1 else reproduction_cooldown (heap s c)),
      energy := energy (heap s c) - 1 / 2\<rparr>"
  define s' where "s' = s\<lparr>heap := (heap s)(c := m)\<rparr>"
  have m: "sane (heap s c) \<Longrightarrow> sane m"
    by (simp add: sane_def m_def)
  have "\<forall>r < next_ref s. sane (heap s' r)"
    using assms(1) m by (simp add: well_formed_def s'_def)
  then have wf': "well_formed s'"
    using assms(1) by (simp add: well_formed_def s'_def)
  have "s1 = s' \<or> s1 = s'\<lparr>creatures := remove1 c (creatures s')\<rparr>"
    using assms(2) unfolding s'_def m_def
    by (auto simp: update_def Let_def adjust_speed_based_on_hunger_def die_def split: if_splits)
  then show ?thesis
  proof
    assume "s1 = s'"
    then show ?thesis using wf' by (simp add: s'_def)
  next
    assume s1: "s1 = s'\<lparr>creatures := remove1 c (creatures s')\<rparr>"
    have "set (remove1 c (creatures s')) \<subseteq> set (creatures s')"
      by (rule set_remove1_subset)
    then have "well_formed s1"
      using wf' unfolding s1 well_formed_def by (auto simp: distinct_remove1)
    then show ?thesis
      by (simp add: s1 s'_def)
  qed
qed

lemma moveRandomly_well_formed:
  assumes "well_formed s"
  shows "well_formed (moveRandomly s c) \<and> next_ref (moveRandomly s c) = next_ref s"
proof -
  have b: "in_bounds (position (heap (moveRandomly s c) c))"
    by (simp add: moveRandomly_position in_bounds_def)
  have "sane (heap s c) \<Longrightarrow> sane (heap (moveRandomly s c) c)"
    using b by (simp add: sane_def moveRandomly_frame)
  then have "\<forall>r < next_ref s. sane (heap (moveRandomly s c) r)"
    using assms by (metis moveRandomly_frame(4) well_formed_def)
  then show ?thesis
    using assms by (simp add: well_formed_def moveRandomly_frame)
qed

lemma moveTowards_frame:
  "creatures (moveTowards s c t) = creatures s"
  "foods (moveTowards s c t) = foods s"
  "next_ref (moveTowards s c t) = next_ref s"
  "r \<noteq> c \<Longrightarrow> heap (moveTowards s c t) r = heap s r"
  "hunger (heap (moveTowards s c t) c) = hunger (heap s c)"
  "reproduction_cooldown (heap (moveTowards s c t) c) = reproduction_cooldown (heap s c)"
  "speed (heap (moveTowards s c t) r) = speed (heap s r)"
  "in_bounds (position (heap (moveTowards s c t) c))"
  by (simp_all add: moveTowards_def Let_def in_bounds_def)

lemma moveTowards_well_formed:
  assumes "well_formed s"
  shows "well_formed (moveTowards s c t) \<and> next_ref (moveTowards s c t) = next_ref s"
proof -
  have "sane (heap s c) \<Longrightarrow> sane (heap (moveTowards s c t) c)"
    by (simp add: sane_def moveTowards_frame)
  then have "\<forall>r < next_ref s. sane (heap (moveTowards s c t) r)"
    using assms by (metis moveTowards_frame(4) well_formed_def)
  then show ?thesis
    using assms by (simp add: well_formed_def moveTowards_frame)
qed

lemma forage_well_formed:
  assumes "well_formed s"
  shows "well_formed (forage s c) \<and> next_ref (forage s c) = next_ref s"
proof (cases "foods s")
  case Nil
  then show ?thesis using assms by (simp add: forage_def)
next
  case (Cons f fs)
  define t where "t = min_by (\<lambda>x. distance_to (position (heap s c)) (real_pos (food_position x))) f fs"
  let ?s1 = "moveTowards s c (real_pos (food_position t))"
  have w1: "well_formed ?s1" "next_ref ?s1 = next_ref s"
    using moveTowards_well_formed[OF assms] by simp_all
  have eat: "well_formed ((eat_food ?s1 c t)\<lparr>foods := remove1 t (foods ?s1)\<rparr>)"
  proof -
    have "length (remove1 t (foods ?s1)) \<le> length (foods ?s1)"
      by (simp add: length_remove1)
    then show ?thesis
      using w1(1) by (simp add: well_formed_def eat_food_def sane_def)
  qed
  have "forage s c = (if isOverlapping t (position (heap ?s1 c))
                      then (eat_food ?s1 c t)\<lparr>foods := remove1 t (foods ?s1)\<rparr> else ?s1)"
    by (simp add: forage_def Cons Let_def t_def)
  then show ?thesis
    using w1 eat by (simp add: eat_food_def)
qed

lemma floordiv2_bounds:
  assumes "0 \<le> x" and "x \<le> b" and "0 \<le> y" and "y \<le> b"
  shows "0 \<le> floordiv2 (x + y) \<and> floordiv2 (x + y) \<le> b"
proof -
  have "real_of_int \<lfloor>(x + y) / 2\<rfloor> \<le> (x + y) / 2"
    by (rule of_int_floor_le)
  moreover have "0 \<le> \<lfloor>(x + y) / 2\<rfloor>"
    using assms by simp
  ultimately show ?thesis
    using assms by (simp add: floordiv2_def)
qed

lemma newborn_sane:
  assumes "sane me" and "sane oc" and "newborn_of me oc child"
  shows "sane child"
proof -
  have "in_bounds (position child)"
    using assms floordiv2_bounds[of "fst (position me)" 800 "fst (position oc)"]
      floordiv2_bounds[of "snd (position me)" 600 "snd (position oc)"]
    by (simp add: sane_def newborn_of_def in_bounds_def)
  then show ?thesis
    using assms(3) by (simp add: sane_def newborn_of_def)
qed

lemma make_offspring_well_formed:
  assumes "well_formed s" and "a < next_ref s" and "b < next_ref s"
  shows "well_formed (make_offspring s a b)"
proof -
  let ?s' = "make_offspring s a b"
  have old: "\<forall>r < next_ref s. sane (heap ?s' r)"
    using assms(1) by (simp add: well_formed_def make_offspring_frame)
  have new: "sane (heap ?s' (next_ref s))"
    using newborn_sane[OF _ _ make_offspring_newborn[of s a b]] assms
    by (simp add: well_formed_def)
  have "\<forall>r < Suc (next_ref s). sane (heap ?s' r)"
    using old new by (simp add: less_Suc_eq)
  moreover have "distinct (creatures s @ [next_ref s])"
    using assms(1) by (auto simp: well_formed_def)
  moreover have "\<forall>r \<in> set (creatures s @ [next_ref s]). r < Suc (next_ref s)"
    using assms(1) by (auto simp: well_formed_def less_Suc_eq)
  ultimately show ?thesis
    using assms(1) by (simp add: well_formed_def make_offspring_frame)
qed

lemma offspring_loop_well_formed:
  assumes "well_formed s" and "a < next_ref s" and "b < next_ref s"
  shows "well_formed (offspring_loop n s a b)"
  using assms
proof (induction n arbitrary: s)
  case 0
  then show ?case by simp
next
  case (Suc n)
  have "well_formed (make_offspring s a b)"
    using Suc.prems by (rule make_offspring_well_formed)
  then show ?case
    using Suc.prems by (simp add: Suc.IH make_offspring_frame)
qed

lemma reproduce_well_formed:
  assumes "well_formed s" and "a < next_ref s" and "b < next_ref s"
  shows "well_formed (reproduce s a b) \<and> next_ref s \<le> next_ref (reproduce s a b)"
proof (cases "gender (heap s a) = gender (heap s b) \<or> reproduction_cooldown (heap s a) > 0
         \<or> reproduction_cooldown (heap s b) > 0")
  case True
  then show ?thesis
    using assms(1) by (simp add: reproduce_def)
next
  case False
  define s2 where "s2 = s\<lparr>heap := (heap s)(a := (heap s a)\<lparr>reproduction_cooldown := 275\<rparr>,
                                  b := (heap s b)\<lparr>reproduction_cooldown := 275\<rparr>),
                rng := snd (randint 1 3 (rng s))\<rparr>"
  have u: "reproduce s a b = offspring_loop (offspring_count s) s2 a b"
    using False reproduce_unfold[of s a b] by (simp add: s2_def)
  have "\<forall>r < next_ref s. sane (heap s2 r)"
    using assms(1) by (simp add: well_formed_def s2_def sane_def)
  then have "well_formed s2"
    using assms(1) by (simp add: well_formed_def s2_def)
  moreover have "a < next_ref s2" "b < next_ref s2"
    using assms(2,3) by (simp_all add: s2_def)
  ultimately have "well_formed (offspring_loop (offspring_count s) s2 a b)"
    by (rule offspring_loop_well_formed)
  then show ?thesis
    by (simp add: u offspring_loop_frame s2_def)
qed

lemma min_by_in: "min_by k b xs \<in> set (b # xs)"
  by (induction xs arbitrary: b) (auto split: if_splits)

lemma seekFood_well_formed:
  assumes "well_formed s" and "c < next_ref s"
  shows "well_formed (seekFood s c) \<and> next_ref s \<le> next_ref (seekFood s c)"
proof -
  have mr: "well_formed (moveRandomly s c) \<and> next_ref s \<le> next_ref (moveRandomly s c)"
    using moveRandomly_well_formed[OF assms(1), of c] by simp
  have fo: "well_formed (forage s c) \<and> next_ref s \<le> next_ref (forage s c)"
    using forage_well_formed[OF assms(1), of c] by simp
  have re: "well_formed (reproduce s c p) \<and> next_ref s \<le> next_ref (reproduce s c p)"
    if "p \<in> set (potential_partners s c)" for p
  proof -
    have "p \<in> set (creatures s)"
      using that by (simp add: potential_partners_def)
    then have "p < next_ref s"
      using assms(1) by (simp add: well_formed_def)
    then show ?thesis
      using reproduce_well_formed[OF assms(1,2)] by simp
  qed
  show ?thesis
  proof (cases "potential_partners s c")
    case Nil
    then show ?thesis
      using mr fo by (simp add: seekFood_def)
  next
    case (Cons p ps)
    define partner where
      "partner = min_by (\<lambda>r. distance_to (position (heap s c)) (position (heap s r))) p ps"
    have "partner \<in> set (potential_partners s c)"
      unfolding partner_def Cons by (rule min_by_in)
    then have "well_formed (reproduce s c partner) \<and> next_ref s \<le> next_ref (reproduce s c partner)"
      by (rule re)
    then show ?thesis
      using mr fo by (simp add: seekFood_def Cons Let_def partner_def)
  qed
qed

lemma spawn_food_well_formed:
  assumes "well_formed s"
  shows "well_formed (spawn_food s) \<and> next_ref (spawn_food s) = next_ref s"
proof -
  obtain new where "foods (spawn_food s) = foods s @ new" "length new = 50 - length (foods s)"
    using spawn_food_appends[of s] by blast
  then have "length (foods (spawn_food s)) \<le> 50"
    using assms by (simp add: well_formed_def)
  then show ?thesis
    using assms by (simp add: well_formed_def spawn_food_frame)
qed

lemma manage_loop_well_formed:
  assumes "manage_loop s i = Some y"
  shows "well_formed s \<longrightarrow> (\<forall>s'. y = Inr s' \<longrightarrow> well_formed s' \<and> next_ref s \<le> next_ref s')"
proof -
  define P where "P = (\<lambda>(s::ecosystem) (i::nat) (y::error + ecosystem).
    well_formed s \<longrightarrow> (\<forall>s'. y = Inr s' \<longrightarrow> well_formed s' \<and> next_ref s \<le> next_ref s'))"
  have "P s i y"
  proof (rule manage_loop.raw_induct[where P = P, OF _ assms])
    fix f :: "ecosystem \<Rightarrow> nat \<Rightarrow> (error + ecosystem) option" and s i y
    assume IH: "\<And>s i y. f s i = Some y \<Longrightarrow> P s i y"
      and step: "(if i < length (creatures s)
         then case update s (creatures s ! i) of Inl e \<Rightarrow> Some (Inl e)
              | Inr s1 \<Rightarrow> f (seekFood s1 (creatures s ! i)) (Suc i)
         else Some (Inr s)) = Some y"
    show "P s i y"
      unfolding P_def
    proof (intro impI allI)
      fix s'
      assume wf: "well_formed s" and y: "y = Inr s'"
      show "well_formed s' \<and> next_ref s \<le> next_ref s'"
      proof (cases "i < length (creatures s)")
        case False
        then show ?thesis
          using step wf y by simp
      next
        case True
        define c where "c = creatures s ! i"
        have c: "c < next_ref s"
          using True wf by (simp add: well_formed_def c_def)
        show ?thesis
        proof (cases "update s c")
          case (Inl e)
          then show ?thesis
            using step True y by (simp add: c_def)
        next
          case (Inr s1)
          have w1: "well_formed s1" "next_ref s1 = next_ref s"
            using update_well_formed[OF wf Inr] by simp_all
          have w2: "well_formed (seekFood s1 c)" "next_ref s \<le> next_ref (seekFood s1 c)"
            using seekFood_well_formed[of s1 c] w1 c by simp_all
          have "f (seekFood s1 c) (Suc i) = Some y"
            using step True Inr by (simp add: c_def)
          then have "P (seekFood s1 c) (Suc i) y"
            by (rule IH)
          then show ?thesis
            using w2 y by (simp add: P_def)
        qed
      qed
    qed
  qed
  then show ?thesis
    by (simp add: P_def)
qed

lemma manage_well_formed:
  assumes "well_formed s" and "manage s = Some (Inr s')"
  shows "well_formed s' \<and> next_ref s \<le> next_ref s' \<and> length (foods s') = 50"
proof -
  obtain s1 where s1: "manage_loop s 0 = Some (Inr s1)" "s' = spawn_food s1"
    using assms(2) by (auto simp: manage_def split: option.splits sum.splits)
  have w1: "well_formed s1" "next_ref s \<le> next_ref s1"
    using manage_loop_well_formed[OF s1(1)] assms(1) by simp_all
  obtain new where "foods s' = foods s1 @ new" "length new = 50 - length (foods s1)"
    using spawn_food_appends[of s1] s1(2) by blast
  then have "length (foods s') = 50"
    using w1(1) by (simp add: well_formed_def)
  then show ?thesis
    using spawn_food_well_formed[OF w1(1)] w1(2) s1(2) by simp
qed

lemma make_founder_well_formed:
  assumes "well_formed s"
  shows "well_formed (make_founder s) \<and> foods (make_founder s) = foods s"
proof -
  obtain x g1 where x: "randint 0 SCREEN_WIDTH (rng s) = (x, g1)" by force
  obtain y g2 where y: "randint 0 SCREEN_HEIGHT g1 = (y, g2)" by force
  have bx: "0 \<le> x \<and> x \<le> 800"
    using randint_range[of 0 SCREEN_WIDTH "rng s"] x by simp
  have "0 \<le> y \<and> y \<le> 600"
    using randint_range[of 0 SCREEN_HEIGHT g1] y by simp
  then have new: "sane (heap (make_founder s) (next_ref s))"
    using bx by (simp add: make_founder_def x y Creature_init_def sane_def in_bounds_def
        split: prod.splits)
  have old: "\<forall>r < next_ref s. sane (heap (make_founder s) r)"
    using assms by (simp add: make_founder_def x y Creature_init_def well_formed_def
        split: prod.splits)
  have "\<forall>r < Suc (next_ref s). sane (heap (make_founder s) r)"
    using old new by (simp add: less_Suc_eq)
  moreover have "distinct (creatures s @ [next_ref s])"
    using assms by (auto simp: well_formed_def)
  moreover have "\<forall>r \<in> set (creatures s @ [next_ref s]). r < Suc (next_ref s)"
    using assms by (auto simp: well_formed_def less_Suc_eq)
  moreover have "creatures (make_founder s) = creatures s @ [next_ref s]"
    "next_ref (make_founder s) = Suc (next_ref s)" "foods (make_founder s) = foods s"
    by (simp_all add: make_founder_def x y Creature_init_def split: prod.splits)
  ultimately show ?thesis
    using assms by (simp add: well_formed_def)
qed

lemma founders_well_formed:
  "well_formed s \<Longrightarrow> well_formed (founders n s) \<and> foods (founders n s) = foods s"
  by (induction n arbitrary: s) (simp_all add: make_founder_well_formed)

lemma Ecosystem_init_well_formed:
  "well_formed (Ecosystem_init g) \<and> foods (Ecosystem_init g) = []"
proof -
  have "well_formed \<lparr>creatures = [], foods = [], heap = (\<lambda>_. unallocated), next_ref = 0, rng = g\<rparr>"
    by (simp add: well_formed_def)
  then show ?thesis
    unfolding Ecosystem_init_def using founders_well_formed by fastforce
qed

lemma reachable_well_formed: "reachable s \<Longrightarrow> well_formed s"
proof (induction rule: reachable.induct)
  case (start g)
  show ?case by (simp add: Ecosystem_init_well_formed)
next
  case (tick s s')
  then show ?case using manage_well_formed by blast
qed

lemma reachable_live_creature:
  assumes "reachable s" and "c \<in> set (creatures s)"
  shows "c < next_ref s \<and> 0 \<le> hunger (heap s c) \<and> 0 \<le> reproduction_cooldown (heap s c) \<and>
         in_bounds (position (heap s c))"
  using reachable_well_formed[OF assms(1)] assms(2) by (simp add: well_formed_def sane_def)

lemma reachable_food_cap: "reachable s \<Longrightarrow> length (foods s) \<le> 50"
  using reachable_well_formed[of s] by (simp add: well_formed_def)

section \<open>Every tick of a run returns\<close>

text \<open>
  In a well-formed state each round of the loop of \<^verbatim>\<open>manage\<close> finds its creature in
  the collection, so \<^verbatim>\<open>die\<close> does not raise, and the measure \<open>remaining\<close> decreases:
  the loop ends although the body appends to the list it iterates over.
\<close>

lemma update_effect:
  assumes "c \<in> set (creatures s)"
  shows "\<exists>s1. update s c = Inr s1 \<and> next_ref s1 = next_ref s \<and>
           (\<forall>r. r \<noteq> c \<longrightarrow> heap s1 r = heap s r) \<and>
           hunger (heap s1 c) = hunger (heap s c) + 1 \<and>
           (creatures s1 = creatures s \<or> creatures s1 = remove1 c (creatures s))"
  using assms by (simp add: update_def Let_def adjust_speed_based_on_hunger_def die_def)

lemma forage_frame:
  "creatures (forage s c) = creatures s"
  "r \<noteq> c \<Longrightarrow> heap (forage s c) r = heap s r"
  by (simp_all add: forage_def Let_def eat_food_def moveTowards_def split: list.splits)

lemma reproduce_effect:
  assumes "a < next_ref s" and "b < next_ref s"
  shows "\<exists>new. creatures (reproduce s a b) = creatures s @ new \<and> length new \<le> 3 \<and>
           (\<forall>r \<in> set new. hunger (heap (reproduce s a b) r) = 0) \<and>
           (\<forall>r < next_ref s. hunger (heap (reproduce s a b) r) = hunger (heap s r))"
proof (cases "gender (heap s a) = gender (heap s b) \<or> reproduction_cooldown (heap s a) > 0
         \<or> reproduction_cooldown (heap s b) > 0")
  case True
  then have "reproduce s a b = s"
    by (simp add: reproduce_def)
  then show ?thesis by simp
next
  case False
  then have g: "gender (heap s a) \<noteq> gender (heap s b)"
    "reproduction_cooldown (heap s a) \<le> 0" "reproduction_cooldown (heap s b) \<le> 0"
    by auto
  let ?new = "[next_ref s ..< next_ref s + offspring_count s]"
  note props = reproduce_props[OF g assms]
  have "\<forall>r \<in> set ?new. hunger (heap (reproduce s a b) r) = 0"
    using props(4) by (auto simp: newborn_of_def)
  moreover have "length ?new \<le> 3"
    using offspring_count_range[of s] by simp
  moreover have "\<forall>r < next_ref s. hunger (heap (reproduce s a b) r) = hunger (heap s r)"
    by (simp add: reproduce_unfold[OF g] offspring_loop_frame)
  ultimately show ?thesis
    using props(1) by blast
qed

lemma seekFood_effect:
  assumes "well_formed s" and "c < next_ref s"
  shows "\<exists>new. creatures (seekFood s c) = creatures s @ new \<and>
           length new \<le> (if 50 \<le> hunger (heap s c) then 3 else 0) \<and>
           (\<forall>r \<in> set new. hunger (heap (seekFood s c) r) = 0) \<and>
           (\<forall>r < next_ref s. r \<noteq> c \<longrightarrow> hunger (heap (seekFood s c) r) = hunger (heap s r))"
proof -
  define Q where "Q = (\<lambda>s' :: ecosystem. \<exists>new. creatures s' = creatures s @ new \<and>
           length new \<le> (if 50 \<le> hunger (heap s c) then 3 else 0) \<and>
           (\<forall>r \<in> set new. hunger (heap s' r) = 0) \<and>
           (\<forall>r < next_ref s. r \<noteq> c \<longrightarrow> hunger (heap s' r) = hunger (heap s r)))"
  have mr: "Q (moveRandomly s c)"
    by (simp add: Q_def moveRandomly_frame)
  have fo: "Q (forage s c)"
    by (simp add: Q_def forage_frame)
  have re: "Q (reproduce s c p)" if "p \<in> set (potential_partners s c)" "50 \<le> hunger (heap s c)" for p
  proof -
    have "p \<in> set (creatures s)"
      using that by (simp add: potential_partners_def)
    then have "p < next_ref s"
      using assms(1) by (simp add: well_formed_def)
    from reproduce_effect[OF assms(2) this] that(2) show ?thesis
      unfolding Q_def by auto
  qed
  have "Q (seekFood s c)"
  proof (cases "potential_partners s c")
    case Nil
    then show ?thesis
      using mr fo by (simp add: seekFood_def)
  next
    case (Cons p ps)
    define partner where
      "partner = min_by (\<lambda>r. distance_to (position (heap s c)) (position (heap s r))) p ps"
    have "partner \<in> set (potential_partners s c)"
      unfolding partner_def Cons by (rule min_by_in)
    then have "50 \<le> hunger (heap s c) \<Longrightarrow> Q (reproduce s c partner)"
      by (rule re)
    then show ?thesis
      using mr fo by (simp add: seekFood_def Cons Let_def partner_def)
  qed
  then show ?thesis
    by (simp add: Q_def)
qed

lemma sum_list_drop_le:
  fixes f :: "'a \<Rightarrow> nat"
  shows "sum_list (map f (drop k xs)) \<le> sum_list (map f xs)"
proof -
  have "sum_list (map f xs) = sum_list (map f (take k xs)) + sum_list (map f (drop k xs))"
    by (metis append_take_drop_id map_append sum_list.append)
  then show ?thesis by simp
qed

lemma drop_after_removal:
  assumes "distinct cs" and "i < length cs"
  shows "drop (Suc i) (remove1 (cs ! i) cs) = drop (Suc (Suc i)) cs"
proof -
  have cs: "cs = take i cs @ cs ! i # drop (Suc i) cs"
    using assms(2) by (rule id_take_nth_drop)
  have "cs ! i \<notin> set (take i cs)"
  proof
    assume "cs ! i \<in> set (take i cs)"
    then obtain j where "j < length (take i cs)" "take i cs ! j = cs ! i"
      by (auto simp: in_set_conv_nth)
    then have "j < i" "cs ! j = cs ! i"
      using assms(2) by simp_all
    then show False
      using nth_eq_iff_index_eq[OF assms(1), of j i] assms(2) by simp
  qed
  then have "remove1 (cs ! i) cs = take i cs @ drop (Suc i) cs"
    by (subst cs) (simp add: remove1_append)
  then show ?thesis
    using assms(2) by simp
qed

lemma remaining_step:
  assumes wf: "well_formed s" and i: "i < length (creatures s)"
    and u: "update s (creatures s ! i) = Inr s1"
  shows "remaining (seekFood s1 (creatures s ! i)) (Suc i) < remaining s i"
proof -
  define c where "c = creatures s ! i"
  define rest where "rest = drop (Suc i) (creatures s)"
  define s2 where "s2 = seekFood s1 c"
  have dist: "distinct (creatures s)"
    using wf by (simp add: well_formed_def)
  have cin: "c \<in> set (creatures s)"
    using i by (simp add: c_def)
  have c: "c < next_ref s"
    using wf cin by (simp add: well_formed_def)
  have split: "drop i (creatures s) = c # rest"
    using i by (simp add: c_def rest_def Cons_nth_drop_Suc)
  have "distinct (drop i (creatures s))"
    using dist by (rule distinct_drop)
  then have cnot: "c \<notin> set rest"
    by (simp add: split)
  have restlt: "\<forall>r \<in> set rest. r < next_ref s"
    using wf by (auto simp: well_formed_def rest_def dest: in_set_dropD)
  from update_effect[OF cin] u
  have s1: "next_ref s1 = next_ref s" "\<forall>r. r \<noteq> c \<longrightarrow> heap s1 r = heap s r"
    "hunger (heap s1 c) = hunger (heap s c) + 1"
    "creatures s1 = creatures s \<or> creatures s1 = remove1 c (creatures s)"
    by (auto simp: c_def)
  have "\<exists>k. drop (Suc i) (creatures s1) = drop k rest"
  proof -
    from s1(4) show ?thesis
    proof
      assume "creatures s1 = creatures s"
      then have "drop (Suc i) (creatures s1) = drop 0 rest"
        by (simp add: rest_def)
      then show ?thesis by blast
    next
      assume "creatures s1 = remove1 c (creatures s)"
      then have "drop (Suc i) (creatures s1) = drop (Suc 0) rest"
        using drop_after_removal[OF dist i] by (simp add: c_def rest_def)
      then show ?thesis by blast
    qed
  qed
  then obtain k where k: "drop (Suc i) (creatures s1) = drop k rest"
    by blast
  have w1: "well_formed s1"
    using update_well_formed[OF wf] u by (simp add: c_def)
  obtain new where new: "creatures s2 = creatures s1 @ new"
    "length new \<le> (if 50 \<le> hunger (heap s1 c) then 3 else 0)"
    "\<forall>r \<in> set new. hunger (heap s2 r) = 0"
    "\<forall>r < next_ref s1. r \<noteq> c \<longrightarrow> hunger (heap s2 r) = hunger (heap s1 r)"
    using seekFood_effect[OF w1, of c] c s1(1) unfolding s2_def by auto
  have same: "weight s2 r = weight s r" if "r \<in> set rest" for r
  proof -
    have "r \<noteq> c" "r < next_ref s1"
      using that cnot restlt s1(1) by auto
    then have "hunger (heap s2 r) = hunger (heap s r)"
      using new(4) s1(2) by simp
    then show ?thesis by (simp add: weight_def)
  qed
  have one: "weight s2 r = 1" if "r \<in> set new" for r
    using that new(3) by (simp add: weight_def)
  have "drop (Suc i) (creatures s2) = drop k rest @ drop (Suc i - length (creatures s1)) new"
    by (simp add: new(1) k)
  then have "remaining s2 (Suc i) =
      sum_list (map (weight s2) (drop k rest)) +
      sum_list (map (weight s2) (drop (Suc i - length (creatures s1)) new))"
    by (simp add: remaining_def)
  also have "sum_list (map (weight s2) (drop k rest)) = sum_list (map (weight s) (drop k rest))"
    using same by (intro arg_cong[of _ _ sum_list] map_cong refl) (auto dest: in_set_dropD)
  also have "sum_list (map (weight s2) (drop (Suc i - length (creatures s1)) new)) \<le>
      sum_list (map (weight s2) new)"
    by (rule sum_list_drop_le)
  also have "sum_list (map (weight s2) new) = sum_list (map (\<lambda>_. 1) new)"
    using one by (intro arg_cong[of _ _ sum_list] map_cong refl) auto
  also have "\<dots> = length new"
    by (simp add: sum_list_triv)
  finally have le: "remaining s2 (Suc i) \<le> sum_list (map (weight s) (drop k rest)) + length new"
    by simp
  have "sum_list (map (weight s) (drop k rest)) \<le> sum_list (map (weight s) rest)"
    by (rule sum_list_drop_le)
  moreover have "length new < weight s c"
    using new(2) s1(3) by (auto simp: weight_def split: if_splits)
  moreover have "remaining s i = weight s c + sum_list (map (weight s) rest)"
    by (simp add: remaining_def split)
  ultimately show ?thesis
    using le by (simp add: s2_def c_def)
qed

lemma manage_loop_returns:
  assumes "well_formed s"
  shows "\<exists>s'. manage_loop s i = Some (Inr s')"
  using assms
proof (induction "remaining s i" arbitrary: s i rule: less_induct)
  case less
  show ?case
  proof (cases "i < length (creatures s)")
    case False
    then show ?thesis
      by (simp add: manage_loop_end)
  next
    case True
    define c where "c = creatures s ! i"
    have cin: "c \<in> set (creatures s)"
      using True by (simp add: c_def)
    then have c: "c < next_ref s"
      using less.prems by (simp add: well_formed_def)
    obtain s1 where s1: "update s c = Inr s1"
      using update_effect[OF cin] by blast
    have w1: "well_formed s1" "next_ref s1 = next_ref s"
      using update_well_formed[OF less.prems s1] by simp_all
    have w2: "well_formed (seekFood s1 c)"
      using seekFood_well_formed[of s1 c] w1 c by simp
    have "remaining (seekFood s1 c) (Suc i) < remaining s i"
      using remaining_step[OF less.prems True] s1 by (simp add: c_def)
    from less.hyps[OF this w2] obtain s' where "manage_loop (seekFood s1 c) (Suc i) = Some (Inr s')"
      by blast
    then show ?thesis
      using manage_loop_step[OF True] s1 by (simp add: c_def)
  qed
qed

lemma manage_returns:
  assumes "well_formed s"
  shows "\<exists>s'. manage s = Some (Inr s') \<and> well_formed s'"
proof -
  obtain s1 where "manage_loop s 0 = Some (Inr s1)"
    using manage_loop_returns[OF assms] by blast
  then have m: "manage s = Some (Inr (spawn_food s1))"
    by (simp add: manage_def)
  then show ?thesis
    using manage_well_formed[OF assms m] by blast
qed

lemma reachable_tick_returns:
  assumes "reachable s"
  shows "\<exists>s'. manage s = Some (Inr s') \<and> reachable s'"
  using manage_returns[OF reachable_well_formed[OF assms]] assms by (blast intro: reachable.tick)

section \<open>The speed across ticks\<close>

text \<open>
  Only the constructor, \<^verbatim>\<open>update\<close> and the assignment to a newborn in
  \<^verbatim>\<open>reproduce\<close> write a speed. So a creature whose speed is in \<open>[1, 5]\<close> keeps a
  speed in \<open>[1, 5]\<close> through every tick, and the founders, which start at speed 1,
  have a speed in \<open>[1, 5]\<close> in every state of a run.
\<close>

lemma update_speed_ok:
  assumes "well_formed s" and "c < next_ref s" and "update s c = Inr s1"
    and "r \<noteq> c \<Longrightarrow> speed_ok (heap s r)"
  shows "speed_ok (heap s1 r)"
proof -
  have h: "0 \<le> hunger (heap s c)"
    using assms(1,2) by (simp add: well_formed_def sane_def)
  have "heap s1 = (heap s)(c := (heap s1 c))" "speed (heap s1 c) = min 5 (1 + real_of_int (hunger (heap s c) + 1) / 100)"
    using assms(3)
    by (auto simp: update_def Let_def adjust_speed_based_on_hunger_def die_def split: if_splits)
  then have "(r \<noteq> c \<and> heap s1 r = heap s r) \<or> (r = c \<and> speed_ok (heap s1 c))"
    using h by (cases "r = c") (auto simp: speed_ok_def dest: fun_cong[of _ _ r])
  then show ?thesis
    using assms(4) by auto
qed

lemma reproduce_keeps_speed:
  assumes "a < next_ref s" and "b < next_ref s" and "r < next_ref s"
  shows "speed (heap (reproduce s a b) r) = speed (heap s r)"
proof (cases "gender (heap s a) = gender (heap s b) \<or> reproduction_cooldown (heap s a) > 0
         \<or> reproduction_cooldown (heap s b) > 0")
  case True
  then have "reproduce s a b = s"
    by (simp add: reproduce_def)
  then show ?thesis by simp
next
  case False
  then have g: "gender (heap s a) \<noteq> gender (heap s b)"
    "reproduction_cooldown (heap s a) \<le> 0" "reproduction_cooldown (heap s b) \<le> 0"
    by auto
  show ?thesis
    using assms(3) by (simp add: reproduce_unfold[OF g] offspring_loop_frame)
qed

lemma forage_keeps_speed: "speed (heap (forage s c) r) = speed (heap s r)"
  by (simp add: forage_def Let_def eat_food_def moveTowards_def split: list.splits)

lemma moveRandomly_keeps_speed: "speed (heap (moveRandomly s c) r) = speed (heap s r)"
  by (simp add: moveRandomly_def split: prod.splits)

lemma seekFood_keeps_speed:
  assumes "well_formed s" and "c < next_ref s" and "r < next_ref s"
  shows "speed (heap (seekFood s c) r) = speed (heap s r)"
proof (cases "potential_partners s c")
  case Nil
  then show ?thesis
    by (simp add: seekFood_def forage_keeps_speed moveRandomly_keeps_speed)
next
  case (Cons p ps)
  define partner where
    "partner = min_by (\<lambda>r. distance_to (position (heap s c)) (position (heap s r))) p ps"
  have "partner \<in> set (potential_partners s c)"
    unfolding partner_def Cons by (rule min_by_in)
  then have "partner \<in> set (creatures s)"
    by (simp add: potential_partners_def)
  then have "partner < next_ref s"
    using assms(1) by (simp add: well_formed_def)
  then have "speed (heap (reproduce s c partner) r) = speed (heap s r)"
    using assms(2,3) by (intro reproduce_keeps_speed)
  then show ?thesis
    by (simp add: seekFood_def Cons Let_def partner_def forage_keeps_speed
        moveRandomly_keeps_speed)
qed

lemma manage_loop_keeps_speed_range:
  assumes "manage_loop s i = Some y"
  shows "well_formed s \<longrightarrow>
         (\<forall>s' r. y = Inr s' \<longrightarrow> r < next_ref s \<longrightarrow> speed_ok (heap s r) \<longrightarrow> speed_ok (heap s' r))"
proof -
  define P where "P = (\<lambda>(s::ecosystem) (i::nat) (y::error + ecosystem). well_formed s \<longrightarrow>
    (\<forall>s' r. y = Inr s' \<longrightarrow> r < next_ref s \<longrightarrow> speed_ok (heap s r) \<longrightarrow> speed_ok (heap s' r)))"
  have "P s i y"
  proof (rule manage_loop.raw_induct[where P = P, OF _ assms])
    fix f :: "ecosystem \<Rightarrow> nat \<Rightarrow> (error + ecosystem) option" and s i y
    assume IH: "\<And>s i y. f s i = Some y \<Longrightarrow> P s i y"
      and step: "(if i < length (creatures s)
         then case update s (creatures s ! i) of Inl e \<Rightarrow> Some (Inl e)
              | Inr s1 \<Rightarrow> f (seekFood s1 (creatures s ! i)) (Suc i)
         else Some (Inr s)) = Some y"
    show "P s i y"
      unfolding P_def
    proof (intro impI allI)
      fix s' r
      assume wf: "well_formed s" and y: "y = Inr s'" and r: "r < next_ref s"
        and ok: "speed_ok (heap s r)"
      show "speed_ok (heap s' r)"
      proof (cases "i < length (creatures s)")
        case False
        then show ?thesis
          using step y ok by simp
      next
        case True
        define c where "c = creatures s ! i"
        have c: "c < next_ref s"
          using True wf by (simp add: well_formed_def c_def)
        show ?thesis
        proof (cases "update s c")
          case (Inl e)
          then show ?thesis
            using step True y by (simp add: c_def)
        next
          case (Inr s1)
          have w1: "well_formed s1" "next_ref s1 = next_ref s"
            using update_well_formed[OF wf Inr] by simp_all
          have ok1: "speed_ok (heap s1 r)"
            using update_speed_ok[OF wf c Inr] ok by simp
          have w2: "well_formed (seekFood s1 c)" "next_ref s \<le> next_ref (seekFood s1 c)"
            using seekFood_well_formed[of s1 c] w1 c by simp_all
          have ok2: "speed_ok (heap (seekFood s1 c) r)"
            using seekFood_keeps_speed[of s1 c r] w1 c r ok1 by (simp add: speed_ok_def)
          have "f (seekFood s1 c) (Suc i) = Some y"
            using step True Inr by (simp add: c_def)
          then have "P (seekFood s1 c) (Suc i) y"
            by (rule IH)
          then show ?thesis
            using w2 y r ok2 by (simp add: P_def)
        qed
      qed
    qed
  qed
  then show ?thesis
    by (simp add: P_def)
qed

lemma manage_keeps_speed_range:
  assumes "well_formed s" and "manage s = Some (Inr s')"
    and "r < next_ref s" and "speed_ok (heap s r)"
  shows "speed_ok (heap s' r)"
proof -
  obtain s1 where s1: "manage_loop s 0 = Some (Inr s1)" "s' = spawn_food s1"
    using assms(2) by (auto simp: manage_def split: option.splits sum.splits)
  have "speed_ok (heap s1 r)"
    using manage_loop_keeps_speed_range[OF s1(1)] assms(1,3,4) by simp
  then show ?thesis
    by (simp add: s1(2) spawn_food_frame)
qed

lemma make_founder_speed:
  "next_ref (make_founder s) = Suc (next_ref s) \<and> speed (heap (make_founder s) (next_ref s)) = 1 \<and>
   (\<forall>r. r \<noteq> next_ref s \<longrightarrow> heap (make_founder s) r = heap s r)"
  by (simp add: make_founder_def Creature_init_def split: prod.splits)

lemma founders_speed:
  assumes "\<forall>r < next_ref s. speed (heap s r) = 1"
  shows "next_ref (founders n s) = next_ref s + n \<and> (\<forall>r < next_ref s + n. speed (heap (founders n s) r) = 1)"
  using assms
proof (induction n arbitrary: s)
  case 0
  then show ?case by simp
next
  case (Suc n)
  have "\<forall>r < next_ref (make_founder s). speed (heap (make_founder s) r) = 1"
    using Suc.prems make_founder_speed[of s] by (simp add: less_Suc_eq)
  from Suc.IH[OF this] show ?case
    using make_founder_speed[of s] by simp
qed

lemma Ecosystem_init_speed:
  "next_ref (Ecosystem_init g) = 10 \<and> (\<forall>r < 10. speed (heap (Ecosystem_init g) r) = 1)"
  unfolding Ecosystem_init_def
  using founders_speed[of "\<lparr>creatures = [], foods = [], heap = (\<lambda>_. unallocated), next_ref = 0, rng = g\<rparr>" 10]
  by simp

lemma founders_speed_in_range:
  assumes "reachable s" and "r < 10"
  shows "r < next_ref s \<and> speed_ok (heap s r)"
  using assms
proof (induction rule: reachable.induct)
  case (start g)
  then show ?case
    using Ecosystem_init_speed[of g] by (simp add: speed_ok_def)
next
  case (tick s s')
  have wf: "well_formed s"
    using tick.hyps(1) by (rule reachable_well_formed)
  have "next_ref s \<le> next_ref s'"
    using manage_well_formed[OF wf tick.hyps(2)] by simp
  then show ?case
    using manage_keeps_speed_range[OF wf tick.hyps(2)] tick.IH[OF tick.prems] by simp
qed

section \<open>The speed of every creature of a run\<close>

text \<open>
  The traced loop computes what \<open>manage_loop\<close> computes, so the traced runs are the
  runs. Along them every creature outside \<open>N\<close> has its speed in \<open>[1, 5]\<close>: a founder
  starts at speed 1, \<^verbatim>\<open>update\<close> puts the speed in range and takes the creature out
  of \<open>N\<close>, and nothing else writes the speed of an existing creature.
\<close>

lemma loop_traced_manage_loop:
  "loop_traced s N i s' N' \<Longrightarrow> manage_loop s i = Some (Inr s')"
proof (induction rule: loop_traced.induct)
  case (finish s i N)
  then show ?case by (simp add: manage_loop_end)
next
  case (visit i s s1 N s' N')
  then show ?case by (simp add: manage_loop_step)
qed


lemma run_traced_reachable: "run_traced s N \<Longrightarrow> reachable s"
proof (induction rule: run_traced.induct)
  case (init g)
  show ?case by (rule reachable.start)
next
  case (tick s N s1 N1)
  have "manage s = Some (Inr (spawn_food s1))"
    using loop_traced_manage_loop[OF tick.hyps(2)] by (simp add: manage_def)
  with tick.IH show ?case
    by (rule reachable.tick)
qed









lemma random_unit_range: "0 \<le> fst (random_unit g) \<and> fst (random_unit g) < 1"
  by (simp add: random_unit_def rng_next_def)

lemma uniform_range:
  assumes "a < b"
  shows "a \<le> fst (uniform a b g) \<and> fst (uniform a b g) < b"
proof -
  have "0 \<le> (b - a) * fst (random_unit g)" "(b - a) * fst (random_unit g) < (b - a) * 1"
    using assms random_unit_range[of g] by (simp_all del: mult_1_right)
  then show ?thesis
    by (cases "random_unit g") (simp add: uniform_def)
qed

lemma make_offspring_speed:
  "speed (heap (make_offspring s a b) (next_ref s)) =
     (if fst (random_unit (snd (uniform (8 / 10) (12 / 10) (snd (uniform (9 / 10) (11 / 10) (rng s)))))) < 1 / 2
      then (speed (heap s a) + speed (heap s b)) / 2
           * fst (uniform (8 / 10) (12 / 10) (snd (uniform (9 / 10) (11 / 10) (rng s))))
      else (speed (heap s a) + speed (heap s b)) / 2)"
  by (simp add: make_offspring_def Let_def Creature_init_def split: prod.splits)

lemma newborn_speed_range:
  assumes "speed_ok (heap s a)" and "speed_ok (heap s b)"
  shows "4 / 5 \<le> speed (heap (make_offspring s a b) (next_ref s)) \<and>
         speed (heap (make_offspring s a b) (next_ref s)) < 6"
proof -
  define base where "base = (speed (heap s a) + speed (heap s b)) / 2"
  define f where "f = fst (uniform (8 / 10) (12 / 10) (snd (uniform (9 / 10) (11 / 10) (rng s))))"
  have b: "1 \<le> base" "base \<le> 5"
    using assms by (simp_all add: speed_ok_def base_def)
  have f: "8 / 10 \<le> f" "f < 12 / 10"
    using uniform_range[of "8 / 10" "12 / 10"] by (simp_all add: f_def)
  have "1 * (8 / 10) \<le> base * f"
    using b f by (intro mult_mono) simp_all
  moreover have "base * f < 5 * (12 / 10)"
    using b f by (intro mult_le_less_imp_less) simp_all
  ultimately have "4 / 5 \<le> base * f \<and> base * f < 6"
    by simp
  then show ?thesis
    using b unfolding make_offspring_speed base_def[symmetric] f_def[symmetric] by simp
qed

lemma newborn_speed_unmutated:
  assumes "speed_ok (heap s a)" and "speed_ok (heap s b)"
    and "1 / 2 \<le> fst (random_unit (snd (uniform (8 / 10) (12 / 10) (snd (uniform (9 / 10) (11 / 10) (rng s))))))"
  shows "speed_ok (heap (make_offspring s a b) (next_ref s))"
  using assms by (simp add: make_offspring_speed speed_ok_def)



end
